theory Spec2Isabelle
  imports Main
begin

section \<open>Strings and thrown values\<close>

text \<open>
  A JavaScript string is a sequence of UTF-16 code units. The whitespace class \<open>\s\<close>
  reaches beyond Latin-1, so a code unit is a natural number here and a string is a list
  of them; \<open>js\<close> turns an ASCII literal into such a list.
\<close>

type_synonym cu = nat
type_synonym jsstring = "cu list"

definition js :: "string \<Rightarrow> jsstring" where
  "js s = map of_char s"

text \<open>
  Everything the parser can throw. \<open>TOMLParseError\<close> and \<open>Error\<close> are thrown by the
  module itself with the message given in the source; \<open>RangeError\<close> and \<open>TypeError\<close>
  come from built-ins of the host (\<open>String.fromCodePoint\<close>, a property read on
  \<open>undefined\<close>), whose message text is the host's. \<open>NonError\<close> stands for a thrown
  value that is not an instance of \<open>Error\<close>: the driver has a branch for it.
\<close>

datatype thrown =
    TOMLParseError jsstring
  | Error jsstring
  | RangeError jsstring
  | TypeError jsstring
  | NonError

fun instanceof_Error :: "thrown \<Rightarrow> bool" where
  "instanceof_Error NonError = False"
| "instanceof_Error _ = True"

fun message :: "thrown \<Rightarrow> jsstring" where
  "message (TOMLParseError m) = m"
| "message (Error m) = m"
| "message (RangeError m) = m"
| "message (TypeError m) = m"
| "message NonError = []"

section \<open>Scanner\<close>

record Scanner =
  source :: jsstring
  position :: nat

definition new_Scanner :: "jsstring \<Rightarrow> Scanner" where
  "new_Scanner s = \<lparr>source = s, position = 0\<rparr>"

text \<open>\<open>char(index)\<close>: the one-character string at the cursor, or the empty string.\<close>

definition char :: "Scanner \<Rightarrow> nat \<Rightarrow> jsstring" where
  "char sc i =
     (if position sc + i < length (source sc) then [source sc ! (position sc + i)] else [])"

text \<open>\<open>slice(start, end)\<close> with \<open>start \<le> end\<close>, clipped to the source as \<open>String.slice\<close> does.\<close>

definition slice :: "Scanner \<Rightarrow> nat \<Rightarrow> nat \<Rightarrow> jsstring" where
  "slice sc a b = take (b - a) (drop (position sc + a) (source sc))"

definition next_n :: "nat \<Rightarrow> Scanner \<Rightarrow> Scanner" where
  "next_n count sc = sc\<lparr>position := position sc + count\<rparr>"

abbreviation next1 :: "Scanner \<Rightarrow> Scanner" where
  "next1 \<equiv> next_n 1"

definition eof :: "Scanner \<Rightarrow> bool" where
  "eof sc = (position sc \<ge> length (source sc))"

definition isCurrentCharEOL :: "Scanner \<Rightarrow> bool" where
  "isCurrentCharEOL sc = (char sc 0 = [10] \<or> slice sc 0 2 = [13, 10])"

text \<open>
  A character-class regular expression tested against a string: it matches when some
  code unit of the string is in the class. On the empty string it never matches.
\<close>

definition test :: "(cu \<Rightarrow> bool) \<Rightarrow> jsstring \<Rightarrow> bool" where
  "test cls s = list_ex cls s"

text \<open>The scanner's own whitespace class \<open>/[ \t]/\<close>.\<close>

definition whitespace :: "cu \<Rightarrow> bool" where
  "whitespace c = (c = 32 \<or> c = 9)"

text \<open>
  The class \<open>\s\<close> of ECMAScript: the WhiteSpace and LineTerminator productions
  (TAB, LF, VT, FF, CR, SP, NBSP, U+1680, U+2000..U+200A, U+2028, U+2029, U+202F, U+205F,
  U+3000, U+FEFF).
\<close>

definition re_s :: "cu \<Rightarrow> bool" where
  "re_s c = (c \<in> {9, 10, 11, 12, 13, 32, 160, 5760, 8232, 8233, 8239, 8287, 12288, 65279}
             \<or> (8192 \<le> c \<and> c \<le> 8202))"

text \<open>\<open>Number.prototype.toString(16)\<close> and \<open>toString(10)\<close> on a natural number.\<close>

definition digit_char :: "nat \<Rightarrow> cu" where
  "digit_char d = (if d < 10 then 48 + d else 87 + d)"

fun toString_radix :: "nat \<Rightarrow> nat \<Rightarrow> jsstring" where
  "toString_radix r n =
     (if r < 2 \<or> n < r then [digit_char n]
      else toString_radix r (n div r) @ [digit_char (n mod r)])"

declare toString_radix.simps [simp del]

text \<open>The options object of \<open>nextUntilChar\<close>; an absent field reads as false.\<close>

record options =
  inline :: bool
  comment :: bool

definition default_options :: options where
  "default_options = \<lparr>inline = False, comment = True\<rparr>"

definition inline_options :: options where
  "inline_options = \<lparr>inline = True, comment = False\<rparr>"

definition no_comment_options :: options where
  "no_comment_options = \<lparr>inline = False, comment = False\<rparr>"

text \<open>The inline loop: \<open>while (whitespace.test(char()) && !eof()) next()\<close>.\<close>

function skip_inline :: "Scanner \<Rightarrow> Scanner" where
  "skip_inline sc =
     (if test whitespace (char sc 0) \<and> \<not> eof sc then skip_inline (next1 sc) else sc)"
  by pat_completeness auto
termination
  by (relation "measure (\<lambda>sc. length (source sc) - position sc)")
     (auto simp: eof_def next_n_def)

declare skip_inline.simps [simp del]

text \<open>The comment loop: \<open>while (!isCurrentCharEOL() && !eof()) next()\<close>.\<close>

function skip_comment :: "Scanner \<Rightarrow> Scanner" where
  "skip_comment sc =
     (if \<not> isCurrentCharEOL sc \<and> \<not> eof sc then skip_comment (next1 sc) else sc)"
  by pat_completeness auto
termination
  by (relation "measure (\<lambda>sc. length (source sc) - position sc)")
     (auto simp: eof_def next_n_def)

declare skip_comment.simps [simp del]

lemma skip_comment_source [simp]: "source (skip_comment sc) = source sc"
  by (induction sc rule: skip_comment.induct)
     (subst skip_comment.simps, simp add: next_n_def)

lemma skip_comment_position: "position sc \<le> position (skip_comment sc)"
proof (induction sc rule: skip_comment.induct)
  case (1 sc)
  show ?case
  proof (cases "\<not> isCurrentCharEOL sc \<and> \<not> eof sc")
    case True
    with 1 have "position (next1 sc) \<le> position (skip_comment (next1 sc))" by simp
    with True show ?thesis
      by (subst skip_comment.simps) (simp add: next_n_def)
  next
    case False
    then show ?thesis by (subst skip_comment.simps) auto
  qed
qed

lemma skip_comment_advances:
  "\<not> isCurrentCharEOL sc \<Longrightarrow> \<not> eof sc \<Longrightarrow> position sc < position (skip_comment sc)"
  using skip_comment_position [of "next1 sc"]
  by (subst skip_comment.simps) (simp add: next_n_def)

text \<open>The full loop of \<open>nextUntilChar\<close>.\<close>

function skip_full :: "bool \<Rightarrow> Scanner \<Rightarrow> Scanner" where
  "skip_full cmt sc =
     (if eof sc then sc
      else if test whitespace (char sc 0) \<or> isCurrentCharEOL sc then skip_full cmt (next1 sc)
      else if cmt \<and> char sc 0 = [35] then skip_full cmt (skip_comment sc)
      else sc)"
  by pat_completeness auto
termination
proof (relation "measure (\<lambda>(cmt, sc). length (source sc) - position sc)", goal_cases)
  case 1
  show ?case by simp
next
  case (2 cmt sc)
  then show ?case by (auto simp: eof_def next_n_def)
next
  case (3 cmt sc)
  then have "position sc < position (skip_comment sc)"
    by (intro skip_comment_advances) auto
  with 3 show ?case by (auto simp: eof_def)
qed

declare skip_full.simps [simp del]

text \<open>
  \<open>nextUntilChar(options)\<close>: the skip, then the check for other kinds of whitespace.
  It returns the moved scanner, or the thrown error together with the scanner as the
  throw leaves it.
\<close>

definition invalid_whitespace_error :: "Scanner \<Rightarrow> thrown" where
  "invalid_whitespace_error sc =
     TOMLParseError (js ''Contains invalid whitespaces: `'' @
        (js [CHR 0x5C, CHR ''u''] @ toString_radix 16 (hd (char sc 0))) @ js ''`'')"

definition nextUntilChar :: "options \<Rightarrow> Scanner \<Rightarrow> (thrown \<times> Scanner) + Scanner" where
  "nextUntilChar opts sc =
     (let sc' = (if inline opts then skip_inline sc else skip_full (comment opts) sc)
      in if \<not> isCurrentCharEOL sc' \<and> test re_s (char sc' 0)
         then Inl (invalid_whitespace_error sc', sc')
         else Inr sc')"


lemma skip_inline_source [simp]: "source (skip_inline sc) = source sc"
  by (induction sc rule: skip_inline.induct)
     (subst skip_inline.simps, simp add: next_n_def)

lemma skip_inline_position: "position sc \<le> position (skip_inline sc)"
proof (induction sc rule: skip_inline.induct)
  case (1 sc)
  show ?case
  proof (cases "test whitespace (char sc 0) \<and> \<not> eof sc")
    case True
    with 1 have "position (next1 sc) \<le> position (skip_inline (next1 sc))" by simp
    with True show ?thesis
      by (subst skip_inline.simps) (simp add: next_n_def)
  next
    case False
    then show ?thesis by (subst skip_inline.simps) auto
  qed
qed

lemma skip_full_source [simp]: "source (skip_full cmt sc) = source sc"
  by (induction cmt sc rule: skip_full.induct)
     (subst skip_full.simps, simp add: next_n_def)

lemma skip_full_position: "position sc \<le> position (skip_full cmt sc)"
proof (induction cmt sc rule: skip_full.induct)
  case (1 cmt sc)
  consider (a) "eof sc"
    | (b) "\<not> eof sc" "test whitespace (char sc 0) \<or> isCurrentCharEOL sc"
    | (c) "\<not> eof sc" "\<not> (test whitespace (char sc 0) \<or> isCurrentCharEOL sc)"
          "cmt \<and> char sc 0 = [35]"
    | (d) "\<not> eof sc" "\<not> (test whitespace (char sc 0) \<or> isCurrentCharEOL sc)"
          "\<not> (cmt \<and> char sc 0 = [35])"
    by blast
  then show ?case
  proof cases
    case a
    then show ?thesis by (subst skip_full.simps) simp
  next
    case b
    with "1.IH"(1) have "position (next1 sc) \<le> position (skip_full cmt (next1 sc))" by blast
    with b show ?thesis by (subst skip_full.simps) (simp add: next_n_def)
  next
    case c
    with "1.IH"(2) have "position (skip_comment sc) \<le> position (skip_full cmt (skip_comment sc))"
      by blast
    with c skip_comment_position [of sc] show ?thesis by (subst skip_full.simps) simp
  next
    case d
    then show ?thesis by (subst skip_full.simps) auto
  qed
qed

lemma nextUntilChar_Inr:
  "nextUntilChar opts sc = Inr sc' \<Longrightarrow> source sc' = source sc \<and> position sc \<le> position sc'"
  using skip_inline_position [of sc] skip_full_position [of sc "comment opts"]
  by (auto simp: nextUntilChar_def Let_def split: if_splits)

lemma nextUntilChar_Inl:
  "nextUntilChar opts sc = Inl (e, sc') \<Longrightarrow> source sc' = source sc \<and> position sc \<le> position sc'"
  using skip_inline_position [of sc] skip_full_position [of sc "comment opts"]
  by (auto simp: nextUntilChar_def Let_def split: if_splits)

section \<open>Values\<close>

text \<open>
  A number is an IEEE double in the source. The special values are modelled as such; a
  finite number is carried as the call that produced it, \<open>parseFloat(text)\<close> or
  \<open>parseInt(text)\<close>, and the rounding of the text to a double is not computed.
  A date is carried as the text handed to \<open>new Date\<close>.
  A mapping is the list of its own properties in insertion order; what a value inherits
  from its prototype is given where a property is read, in \<open>get_property\<close>.
\<close>

datatype jsnum = NaN | PosInfinity | NegInfinity | ParseFloatOf jsstring | ParseIntOf jsstring

datatype jsvalue =
    VUndefined
  | VString jsstring
  | VNumber jsnum
  | VBoolean bool
  | VDate jsstring
  | VArray "jsvalue list"
  | VObject "(jsstring \<times> jsvalue) list"

fun is_object :: "jsvalue \<Rightarrow> bool" where
  "is_object (VObject _) = True"
| "is_object _ = False"

text \<open>\<open>obj[key] = v\<close> on own properties: an existing key keeps its place, a new one is appended.\<close>

fun set_prop :: "jsstring \<Rightarrow> jsvalue \<Rightarrow> (jsstring \<times> jsvalue) list \<Rightarrow> (jsstring \<times> jsvalue) list" where
  "set_prop k v [] = [(k, v)]"
| "set_prop k v (p # ps) = (if fst p = k then (k, v) # ps else p # set_prop k v ps)"

section \<open>Match results\<close>

text \<open>
  A parser is a function of the scanner. It returns \<open>success(body)\<close> or \<open>failure()\<close> and
  leaves the scanner moved, or it throws; each outcome carries the scanner as the call
  leaves it. \<open>OutOfFuel\<close> is the outcome of a loop that used up the iteration budget
  the model gives it, so that a loop that does not stop has a value too.
\<close>

datatype 'a result =
    Matched 'a Scanner
  | NotMatched Scanner
  | Throw thrown Scanner
  | OutOfFuel

type_synonym 'a parser = "Scanner \<Rightarrow> 'a result"

text \<open>\<open>const r = parser(scanner); if (r.ok) ... else ...\<close>, a throw passing through.\<close>

definition on_result :: "'a result \<Rightarrow> ('a \<Rightarrow> Scanner \<Rightarrow> 'b result) \<Rightarrow> (Scanner \<Rightarrow> 'b result) \<Rightarrow> 'b result" where
  "on_result r ok ko =
     (case r of
        Matched body sc \<Rightarrow> ok body sc
      | NotMatched sc \<Rightarrow> ko sc
      | Throw e sc \<Rightarrow> Throw e sc
      | OutOfFuel \<Rightarrow> OutOfFuel)"

lemma on_result_cong [fundef_cong]:
  "r = r' \<Longrightarrow> (\<And>body sc. r' = Matched body sc \<Longrightarrow> ok body sc = ok' body sc) \<Longrightarrow>
   (\<And>sc. r' = NotMatched sc \<Longrightarrow> ko sc = ko' sc) \<Longrightarrow>
   on_result r ok ko = on_result r' ok' ko'"
  by (auto simp: on_result_def split: result.splits)

text \<open>\<open>scanner.nextUntilChar(options); ...\<close>, its throw passing through.\<close>

definition after_skip :: "options \<Rightarrow> Scanner \<Rightarrow> (Scanner \<Rightarrow> 'a result) \<Rightarrow> 'a result" where
  "after_skip opts sc k =
     (case nextUntilChar opts sc of Inl (e, sc') \<Rightarrow> Throw e sc' | Inr sc' \<Rightarrow> k sc')"

lemma after_skip_cong [fundef_cong]:
  "opts = opts' \<Longrightarrow> sc = sc' \<Longrightarrow> (\<And>s. nextUntilChar opts' sc' = Inr s \<Longrightarrow> k s = k' s) \<Longrightarrow>
   after_skip opts sc k = after_skip opts' sc' k'"
  by (auto simp: after_skip_def split: sum.splits)

section \<open>Utilities\<close>

text \<open>
  \<open>Utils.unflat(keys, values, cObj)\<close>. The third argument is absent in the first call;
  with no key the function returns it as it is (\<open>undefined\<close> in the first call).
\<close>

function unflat :: "jsstring list \<Rightarrow> jsvalue \<Rightarrow> jsvalue option \<Rightarrow> jsvalue" where
  "unflat keys values cObj =
     (if length keys = 0 then (case cObj of None \<Rightarrow> VUndefined | Some c \<Rightarrow> c)
      else
        let cObj' = (case cObj of None \<Rightarrow> values | Some c \<Rightarrow> c);
            out = VObject [(last keys, cObj')]
        in unflat (butlast keys) values (Some out))"
  by pat_completeness auto
termination
  by (relation "measure (\<lambda>(keys, values, cObj). length keys)") auto

declare unflat.simps [simp del]

text \<open>
  Modelled from the spec: the generic deep-merge utility (\<open>deepMerge\<close> of the collections
  library) is not part of the sources. The spec gives its contract: it recursively merges
  two nested mappings, the right one overriding the left at matching leaf keys, it
  concatenates nothing and never fails, and an overlap that is not mapping with mapping is
  an override.
\<close>

function deepMerge :: "jsvalue \<Rightarrow> jsvalue \<Rightarrow> jsvalue"
  and mergeEntries :: "(jsstring \<times> jsvalue) list \<Rightarrow> (jsstring \<times> jsvalue) list \<Rightarrow> (jsstring \<times> jsvalue) list"
where
  "deepMerge a b =
     (case b of
        VObject r \<Rightarrow> (case a of VObject l \<Rightarrow> VObject (mergeEntries l r) | _ \<Rightarrow> b)
      | _ \<Rightarrow> b)"
| "mergeEntries acc [] = acc"
| "mergeEntries acc (kv # rest) =
     mergeEntries
       (set_prop (fst kv)
          (case map_of acc (fst kv) of
             Some old \<Rightarrow> if is_object old \<and> is_object (snd kv) then deepMerge old (snd kv) else snd kv
           | None \<Rightarrow> snd kv)
          acc)
       rest"
  by pat_completeness auto
termination
proof (relation "measure (\<lambda>x. case x of
          Inl (a, b) \<Rightarrow> 2 * size b
        | Inr (acc, r) \<Rightarrow> 2 * size_list (size_prod (\<lambda>x. 0) size) r + 1)", goal_cases)
  case (3 acc kv rest old)
  then show ?case by (cases kv) simp
qed simp_all

declare deepMerge.simps [simp del]


declare mergeEntries.simps [simp del]

text \<open>
  \<open>Utils.deepAssignWithTable(target, table)\<close>. The source mutates \<open>target\<close> in place;
  the model returns the updated target, or the thrown error.
\<close>

datatype table_type = Block_type | Table_type | TableArray_type

record table =
  tbl_type :: table_type
  tbl_key :: "jsstring list"
  tbl_value :: jsvalue

text \<open>\<open>typeof v === "object" && v !== null\<close>.\<close>

fun typeof_object :: "jsvalue \<Rightarrow> bool" where
  "typeof_object (VObject _) = True"
| "typeof_object (VArray _) = True"
| "typeof_object (VDate _) = True"
| "typeof_object _ = False"

text \<open>An own property of a mapping: \<open>undefined\<close> when the key is absent.\<close>

definition get_prop :: "(jsstring \<times> jsvalue) list \<Rightarrow> jsstring \<Rightarrow> jsvalue" where
  "get_prop props k = (case map_of props k of None \<Rightarrow> VUndefined | Some v \<Rightarrow> v)"

text \<open>
  A key that is an array index: the decimal text, without leading zeros, of a number
  below \<open>2\<^sup>3\<^sup>2 - 1\<close>.
\<close>

definition decimal_value :: "jsstring \<Rightarrow> nat" where
  "decimal_value s = foldl (\<lambda>a c. 10 * a + (c - 48)) 0 s"

definition array_index :: "jsstring \<Rightarrow> nat option" where
  "array_index s =
     (if s \<noteq> [] \<and> list_all (\<lambda>c. 48 \<le> c \<and> c \<le> 57) s \<and> (s = js ''0'' \<or> hd s \<noteq> 48)
         \<and> decimal_value s < 4294967295
      then Some (decimal_value s) else None)"

text \<open>
  \<open>target[key]\<close> looks for an own property first and then along the prototype chain.
  The values of the tree are mappings made by object literals, sequences, dates, strings,
  numbers and booleans, so the chain is the built-in prototype of the kind of value and
  then \<open>Object.prototype\<close>. The names below are the string-keyed properties of these
  prototypes in ECMAScript 2023, the legacy ones of its Annex B included; each of them
  holds a function. The accessor \<open>__proto__\<close> is left out: the key \<open>__proto__\<close> is read as
  any other key, as on a host that has removed the accessor.
\<close>

definition Object_prototype :: "jsstring list" where
  "Object_prototype = map js
     [''constructor'', ''__defineGetter__'', ''__defineSetter__'', ''hasOwnProperty'',
      ''__lookupGetter__'', ''__lookupSetter__'', ''isPrototypeOf'', ''propertyIsEnumerable'',
      ''toString'', ''valueOf'', ''toLocaleString'']"

definition Array_prototype :: "jsstring list" where
  "Array_prototype = map js
     [''constructor'', ''at'', ''concat'', ''copyWithin'', ''fill'', ''find'', ''findIndex'',
      ''findLast'', ''findLastIndex'', ''lastIndexOf'', ''pop'', ''push'', ''reverse'', ''shift'',
      ''unshift'', ''slice'', ''sort'', ''splice'', ''includes'', ''indexOf'', ''join'', ''keys'',
      ''entries'', ''values'', ''forEach'', ''filter'', ''flat'', ''flatMap'', ''map'', ''every'',
      ''some'', ''reduce'', ''reduceRight'', ''toLocaleString'', ''toString'', ''toReversed'',
      ''toSorted'', ''toSpliced'', ''with'']"

definition String_prototype :: "jsstring list" where
  "String_prototype = map js
     [''constructor'', ''anchor'', ''at'', ''big'', ''blink'', ''bold'', ''charAt'', ''charCodeAt'',
      ''codePointAt'', ''concat'', ''endsWith'', ''fontcolor'', ''fontsize'', ''fixed'',
      ''includes'', ''indexOf'', ''isWellFormed'', ''italics'', ''lastIndexOf'', ''link'',
      ''localeCompare'', ''match'', ''matchAll'', ''normalize'', ''padEnd'', ''padStart'',
      ''repeat'', ''replace'', ''replaceAll'', ''search'', ''slice'', ''small'', ''split'',
      ''strike'', ''sub'', ''substr'', ''substring'', ''sup'', ''startsWith'', ''toString'',
      ''toWellFormed'', ''trim'', ''trimStart'', ''trimLeft'', ''trimEnd'', ''trimRight'',
      ''toLocaleLowerCase'', ''toLocaleUpperCase'', ''toLowerCase'', ''toUpperCase'', ''valueOf'']"

definition Number_prototype :: "jsstring list" where
  "Number_prototype = map js
     [''constructor'', ''toExponential'', ''toFixed'', ''toPrecision'', ''toString'', ''valueOf'',
      ''toLocaleString'']"

definition Boolean_prototype :: "jsstring list" where
  "Boolean_prototype = map js [''constructor'', ''toString'', ''valueOf'']"

definition Date_prototype :: "jsstring list" where
  "Date_prototype = map js
     [''constructor'', ''toString'', ''toDateString'', ''toTimeString'', ''toISOString'',
      ''toUTCString'', ''toGMTString'', ''getDate'', ''setDate'', ''getDay'', ''getFullYear'',
      ''setFullYear'', ''getHours'', ''setHours'', ''getMilliseconds'', ''setMilliseconds'',
      ''getMinutes'', ''setMinutes'', ''getMonth'', ''setMonth'', ''getSeconds'', ''setSeconds'',
      ''getTime'', ''setTime'', ''getTimezoneOffset'', ''getUTCDate'', ''setUTCDate'',
      ''getUTCDay'', ''getUTCFullYear'', ''setUTCFullYear'', ''getUTCHours'', ''setUTCHours'',
      ''getUTCMilliseconds'', ''setUTCMilliseconds'', ''getUTCMinutes'', ''setUTCMinutes'',
      ''getUTCMonth'', ''setUTCMonth'', ''getUTCSeconds'', ''setUTCSeconds'', ''valueOf'',
      ''getYear'', ''setYear'', ''toJSON'', ''toLocaleString'', ''toLocaleDateString'',
      ''toLocaleTimeString'']"

fun prototype_chain :: "jsvalue \<Rightarrow> jsstring list" where
  "prototype_chain (VObject _) = Object_prototype"
| "prototype_chain (VArray _) = Array_prototype @ Object_prototype"
| "prototype_chain (VString _) = String_prototype @ Object_prototype"
| "prototype_chain (VNumber _) = Number_prototype @ Object_prototype"
| "prototype_chain (VBoolean _) = Boolean_prototype @ Object_prototype"
| "prototype_chain (VDate _) = Date_prototype @ Object_prototype"
| "prototype_chain VUndefined = []"

text \<open>
  What \<open>target[key]\<close> gives on a target other than \<open>undefined\<close>: a value of the tree, or
  \<open>NotData\<close> for the other values there are, the length of a sequence or of a string and
  the functions of the prototypes. An own property comes first: a property of a mapping,
  an element of a sequence or a code unit of a string at an index, and the length.
\<close>

datatype property = Data jsvalue | NotData

definition inherited :: "jsvalue \<Rightarrow> jsstring \<Rightarrow> property" where
  "inherited target k = (if k \<in> set (prototype_chain target) then NotData else Data VUndefined)"

definition get_property :: "jsvalue \<Rightarrow> jsstring \<Rightarrow> property" where
  "get_property target k =
     (case target of
        VObject props \<Rightarrow>
          (case get_prop props k of VUndefined \<Rightarrow> inherited target k | v \<Rightarrow> Data v)
      | VArray xs \<Rightarrow>
          if k = js ''length'' then NotData
          else (case array_index k of
                  Some i \<Rightarrow> if i < length xs then Data (xs ! i) else inherited target k
                | None \<Rightarrow> inherited target k)
      | VString s \<Rightarrow>
          if k = js ''length'' then NotData
          else (case array_index k of
                  Some i \<Rightarrow> if i < length s then Data (VString [s ! i]) else inherited target k
                | None \<Rightarrow> inherited target k)
      | _ \<Rightarrow> inherited target k)"

text \<open>
  The mutation of the value held at \<open>target[key]\<close>, seen from the target: the property of
  a mapping or the element of a sequence is replaced by the mutated value.
\<close>

definition put_property :: "jsvalue \<Rightarrow> jsstring \<Rightarrow> jsvalue \<Rightarrow> jsvalue" where
  "put_property target k v =
     (case target of
        VObject props \<Rightarrow> VObject (set_prop k v props)
      | VArray xs \<Rightarrow> (case array_index k of Some i \<Rightarrow> VArray (xs[i := v]) | None \<Rightarrow> target)
      | _ \<Rightarrow> target)"

text \<open>
  \<open>Object.assign(target, src)\<close> on the property lists, and on a target of any kind. On a
  string, a number or a boolean the properties are set on a wrapper that is dropped, so
  the target is as it was. On a sequence or a date the call adds named properties to the
  object, which the value tree does not hold: the model leaves the target as it is there.
\<close>

definition Object_assign :: "(jsstring \<times> jsvalue) list \<Rightarrow> jsvalue \<Rightarrow> (jsstring \<times> jsvalue) list" where
  "Object_assign target src =
     (case src of VObject ps \<Rightarrow> fold (\<lambda>p t. set_prop (fst p) (snd p) t) ps target | _ \<Rightarrow> target)"

definition assign :: "jsvalue \<Rightarrow> jsvalue \<Rightarrow> jsvalue" where
  "assign target src =
     (case target of VObject props \<Rightarrow> VObject (Object_assign props src) | _ \<Rightarrow> target)"

function deepAssignWithTable :: "jsvalue \<Rightarrow> table \<Rightarrow> thrown + jsvalue" where
  "deepAssignWithTable target tbl =
     (if length (tbl_key tbl) = 0 then Inl (Error (js ''Unexpected key length''))
      else
        case target of
          VUndefined \<Rightarrow>
            Inl (TypeError (js ''Cannot read properties of undefined (reading '' @ [39]
                              @ hd (tbl_key tbl) @ [39] @ js '')''))
        | _ \<Rightarrow>
            (case get_property target (hd (tbl_key tbl)) of
               NotData \<Rightarrow> Inl (Error (js ''Unexpected assign''))
             | Data value \<Rightarrow>
                 (case value of
                    VUndefined \<Rightarrow>
                      Inr (assign target
                             (unflat (tbl_key tbl)
                                (if tbl_type tbl = Table_type then tbl_value tbl
                                 else VArray [tbl_value tbl]) None))
                  | VArray xs \<Rightarrow>
                      if tbl_type tbl = TableArray_type \<and> length (tbl_key tbl) = 1
                      then Inr (put_property target (hd (tbl_key tbl)) (VArray (xs @ [tbl_value tbl])))
                      else
                        (case deepAssignWithTable (if xs = [] then VUndefined else last xs)
                                (tbl\<lparr>tbl_key := tl (tbl_key tbl)\<rparr>) of
                           Inl e \<Rightarrow> Inl e
                         | Inr last' \<Rightarrow>
                             Inr (put_property target (hd (tbl_key tbl))
                                    (VArray (if xs = [] then [] else butlast xs @ [last']))))
                  | VObject sub \<Rightarrow>
                      (case deepAssignWithTable (VObject sub) (tbl\<lparr>tbl_key := tl (tbl_key tbl)\<rparr>) of
                         Inl e \<Rightarrow> Inl e
                       | Inr sub' \<Rightarrow> Inr (put_property target (hd (tbl_key tbl)) sub'))
                  | VDate d \<Rightarrow>
                      (case deepAssignWithTable (VDate d) (tbl\<lparr>tbl_key := tl (tbl_key tbl)\<rparr>) of
                         Inl e \<Rightarrow> Inl e
                       | Inr sub' \<Rightarrow> Inr (put_property target (hd (tbl_key tbl)) sub'))
                  | _ \<Rightarrow> Inl (Error (js ''Unexpected assign'')))))"
  by pat_completeness auto
termination
  by (relation "measure (\<lambda>(target, tbl). length (tbl_key tbl))") auto

declare deepAssignWithTable.simps [simp del]

section \<open>Parser combinators and generators\<close>

text \<open>\<open>character(str)\<close>, the literal matcher.\<close>

definition character :: "jsstring \<Rightarrow> unit parser" where
  "character str scanner =
     after_skip inline_options scanner (\<lambda>sc1.
       if slice sc1 0 (length str) = str
       then after_skip inline_options (next_n (length str) sc1) (\<lambda>sc2. Matched () sc2)
       else NotMatched sc1)"

text \<open>\<open>or(parsers)\<close>: the first parser that matches wins.\<close>

primrec Or :: "'a parser list \<Rightarrow> 'a parser" where
  "Or [] scanner = NotMatched scanner"
| "Or (parse # parsers) scanner =
     on_result (parse scanner) (\<lambda>body sc. Matched body sc) (\<lambda>sc. Or parsers sc)"

text \<open>
  \<open>join(parser, separator)\<close>. The loop \<open>while (!scanner.eof())\<close> takes one unit of the
  iteration budget for each round.
\<close>

fun Join_loop :: "nat \<Rightarrow> 'a parser \<Rightarrow> jsstring \<Rightarrow> 'a list \<Rightarrow> 'a list parser" where
  "Join_loop 0 parser separator out scanner = OutOfFuel"
| "Join_loop (Suc n) parser separator out scanner =
     (if \<not> eof scanner then
        on_result (character separator scanner)
          (\<lambda>_ sc1. on_result (parser sc1)
             (\<lambda>body sc2. Join_loop n parser separator (out @ [body]) sc2)
             (\<lambda>sc2. Throw (TOMLParseError (js ''Invalid token after '' @ [34] @ separator @ [34])) sc2))
          (\<lambda>sc1. Matched out sc1)
      else Matched out scanner)"

definition Join :: "nat \<Rightarrow> 'a parser \<Rightarrow> jsstring \<Rightarrow> 'a list parser" where
  "Join n parser separator scanner =
     on_result (parser scanner)
       (\<lambda>first sc1. Join_loop n parser separator [first] sc1)
       (\<lambda>sc1. NotMatched sc1)"

text \<open>\<open>kv(keyParser, separator, valueParser)\<close>.\<close>

definition Kv :: "jsstring list parser \<Rightarrow> jsstring \<Rightarrow> jsvalue parser \<Rightarrow> jsvalue parser" where
  "Kv keyParser separator valueParser scanner =
     on_result (keyParser scanner)
       (\<lambda>key sc1. on_result (character separator sc1)
          (\<lambda>_ sc2. on_result (valueParser sc2)
             (\<lambda>val sc3. Matched (unflat key val None) sc3)
             (\<lambda>sc3. Throw (TOMLParseError (js ''Value of key/value pair is invalid data format'')) sc3))
          (\<lambda>sc2. Throw (TOMLParseError
             (js ''key/value pair doesn'' @ [39] @ js ''t have '' @ [34] @ separator @ [34])) sc2))
       (\<lambda>sc1. NotMatched sc1)"

text \<open>\<open>merge(parser)\<close>.\<close>

definition Merge :: "jsvalue list parser \<Rightarrow> jsvalue parser" where
  "Merge parser scanner =
     on_result (parser scanner)
       (\<lambda>records sc1.
          Matched (foldl (\<lambda>body record. if typeof_object body then deepMerge body record else body)
                     (VObject []) records) sc1)
       (\<lambda>sc1. NotMatched sc1)"

text \<open>\<open>repeat(parser)\<close>, with the iteration budget of its loop.\<close>

fun Repeat_loop :: "nat \<Rightarrow> 'a parser \<Rightarrow> 'a list \<Rightarrow> 'a list parser" where
  "Repeat_loop 0 parser body scanner = OutOfFuel"
| "Repeat_loop (Suc n) parser body scanner =
     (if \<not> eof scanner then
        on_result (parser scanner)
          (\<lambda>b sc1. after_skip default_options sc1 (\<lambda>sc2. Repeat_loop n parser (body @ [b]) sc2))
          (\<lambda>sc1. if length body = 0 then NotMatched sc1 else Matched body sc1)
      else if length body = 0 then NotMatched scanner else Matched body scanner)"

definition Repeat :: "nat \<Rightarrow> 'a parser \<Rightarrow> 'a list parser" where
  "Repeat n parser scanner = Repeat_loop n parser [] scanner"

text \<open>\<open>surround(left, parser, right)\<close>.\<close>

definition Surround :: "jsstring \<Rightarrow> 'a parser \<Rightarrow> jsstring \<Rightarrow> 'a parser" where
  "Surround left parser right scanner =
     on_result (character left scanner)
       (\<lambda>_ sc1. on_result (parser sc1)
          (\<lambda>body sc2. on_result (character right sc2)
             (\<lambda>_ sc3. Matched body sc3)
             (\<lambda>sc3. Throw (TOMLParseError
                (js ''Not closed by '' @ [34] @ right @ [34] @ js '' after started with ''
                   @ [34] @ left @ [34])) sc3))
          (\<lambda>sc2. Throw (TOMLParseError (js ''Invalid token after '' @ [34] @ left @ [34])) sc2))
       (\<lambda>sc1. NotMatched sc1)"


section \<open>Parser components\<close>

text \<open>The character classes of \<open>Patterns\<close> and of the recognizers.\<close>

definition is_digit :: "cu \<Rightarrow> bool" where
  "is_digit c = (48 \<le> c \<and> c \<le> 57)"

definition BARE_KEY :: "cu \<Rightarrow> bool" where
  "BARE_KEY c = ((65 \<le> c \<and> c \<le> 90) \<or> (97 \<le> c \<and> c \<le> 122) \<or> is_digit c \<or> c = 95 \<or> c = 45)"

definition FLOAT :: "cu \<Rightarrow> bool" where
  "FLOAT c = (is_digit c \<or> c = 95 \<or> c = 46 \<or> c = 101 \<or> c = 69 \<or> c = 43 \<or> c = 45)"

definition END_OF_VALUE :: "cu \<Rightarrow> bool" where
  "END_OF_VALUE c = (c \<in> {32, 9, 13, 10, 35, 44, 125, 93})"

text \<open>\<open>/[+-]/\<close>, \<open>/[0-9_]/\<close>, \<open>/[0-9a-f_]/i\<close> and \<open>/[ 0-9TZ.:-]/\<close>.\<close>

definition re_sign :: "cu \<Rightarrow> bool" where
  "re_sign c = (c = 43 \<or> c = 45)"

definition re_digit_us :: "cu \<Rightarrow> bool" where
  "re_digit_us c = (is_digit c \<or> c = 95)"

definition re_hex_us :: "cu \<Rightarrow> bool" where
  "re_hex_us c = (is_digit c \<or> (97 \<le> c \<and> c \<le> 102) \<or> (65 \<le> c \<and> c \<le> 70) \<or> c = 95)"

definition re_datetime :: "cu \<Rightarrow> bool" where
  "re_datetime c = (c = 32 \<or> is_digit c \<or> c = 84 \<or> c = 90 \<or> c = 46 \<or> c = 58 \<or> c = 45)"

text \<open>
  The loop shared by the recognizers that collect characters of one class:
  \<open>while (cls.test(char()) && !eof()) { acc.push(char()); next(); }\<close>.
\<close>

function collect :: "(cu \<Rightarrow> bool) \<Rightarrow> Scanner \<Rightarrow> jsstring list \<Rightarrow> jsstring list \<times> Scanner" where
  "collect cls sc acc =
     (if test cls (char sc 0) \<and> \<not> eof sc then collect cls (next1 sc) (acc @ [char sc 0])
      else (acc, sc))"
  by pat_completeness auto
termination
  by (relation "measure (\<lambda>(cls, sc, acc). length (source sc) - position sc)")
     (auto simp: eof_def next_n_def)

declare collect.simps [simp del]

text \<open>\<open>BareKey\<close>. Its loop tests \<open>scanner.char()\<close> for the empty string instead of \<open>eof()\<close>.\<close>

function BareKey_loop :: "Scanner \<Rightarrow> jsstring list \<Rightarrow> jsstring list \<times> Scanner" where
  "BareKey_loop sc acc =
     (if char sc 0 \<noteq> [] \<and> test BARE_KEY (char sc 0)
      then BareKey_loop (next1 sc) (acc @ [char sc 0])
      else (acc, sc))"
  by pat_completeness auto
termination
  by (relation "measure (\<lambda>(sc, acc). length (source sc) - position sc)")
     (auto simp: char_def next_n_def split: if_splits)

declare BareKey_loop.simps [simp del]

definition BareKey :: "jsstring parser" where
  "BareKey scanner =
     after_skip inline_options scanner (\<lambda>sc1.
       if char sc1 0 = [] \<or> \<not> test BARE_KEY (char sc1 0) then NotMatched sc1
       else case BareKey_loop sc1 [] of (acc, sc2) \<Rightarrow> Matched (concat acc) sc2)"

text \<open>
  \<open>parseInt("0x" + s, 16)\<close>: the value of the longest prefix of hexadecimal digits of
  \<open>s\<close>, or NaN (\<open>None\<close>) when there is none.
\<close>

definition is_hex :: "cu \<Rightarrow> bool" where
  "is_hex c = (is_digit c \<or> (97 \<le> c \<and> c \<le> 102) \<or> (65 \<le> c \<and> c \<le> 70))"

definition hex_val :: "cu \<Rightarrow> nat" where
  "hex_val c = (if is_digit c then c - 48 else if 97 \<le> c then c - 87 else c - 55)"

definition parseInt_0x :: "jsstring \<Rightarrow> nat option" where
  "parseInt_0x s =
     (let ds = takeWhile is_hex s
      in if ds = [] then None else Some (foldl (\<lambda>n c. 16 * n + hex_val c) 0 ds))"

text \<open>
  \<open>String.fromCodePoint\<close>: a RangeError for NaN and for a number above 0x10FFFF, else
  the UTF-16 encoding of the code point.
\<close>

definition fromCodePoint :: "nat option \<Rightarrow> thrown + jsstring" where
  "fromCodePoint cp =
     (case cp of
        None \<Rightarrow> Inl (RangeError (js ''Invalid code point NaN''))
      | Some n \<Rightarrow>
          if n > 1114111 then Inl (RangeError (js ''Invalid code point '' @ toString_radix 10 n))
          else if n < 65536 then Inr [n]
          else Inr [55296 + (n - 65536) div 1024, 56320 + (n - 65536) mod 1024])"

definition EscapeSequence :: "jsstring parser" where
  "EscapeSequence scanner =
     (if char scanner 0 = [92] then
        let sc = next1 scanner; c = char sc 0
        in if c = js ''b'' then Matched [8] (next1 sc)
           else if c = js ''t'' then Matched [9] (next1 sc)
           else if c = js ''n'' then Matched [10] (next1 sc)
           else if c = js ''f'' then Matched [12] (next1 sc)
           else if c = js ''r'' then Matched [13] (next1 sc)
           else if c = js ''u'' \<or> c = js ''U'' then
             (let codePointLen = (if c = js ''u'' then 4 else 6);
                  codePoint = parseInt_0x (slice sc 1 (1 + codePointLen))
              in case fromCodePoint codePoint of
                   Inl e \<Rightarrow> Throw e sc
                 | Inr str \<Rightarrow> Matched str (next_n (codePointLen + 1) sc))
           else if c = [34] then Matched [34] (next1 sc)
           else if c = [92] then Matched [92] (next1 sc)
           else Throw (TOMLParseError (js ''Invalid escape sequence: '' @ [92] @ c)) sc
      else NotMatched scanner)"

lemma EscapeSequence_Matched:
  "EscapeSequence sc = Matched s sc' \<Longrightarrow> source sc' = source sc \<and> position sc < position sc'"
  by (auto simp: EscapeSequence_def Let_def next_n_def split: if_splits sum.splits)

lemma EscapeSequence_NotMatched: "EscapeSequence sc = NotMatched sc' \<Longrightarrow> sc' = sc"
  by (auto simp: EscapeSequence_def Let_def split: if_splits sum.splits)

lemma EscapeSequence_fuel [simp]: "EscapeSequence sc \<noteq> OutOfFuel"
  by (auto simp: EscapeSequence_def Let_def split: if_splits sum.splits)

text \<open>\<open>BasicString\<close>.\<close>

function BasicString_loop :: "Scanner \<Rightarrow> jsstring list \<Rightarrow> jsstring result" where
  "BasicString_loop sc acc =
     (if char sc 0 \<noteq> [34] \<and> \<not> eof sc then
        if char sc 0 = [10]
        then Throw (TOMLParseError (js ''Single-line string cannot contain EOL'')) sc
        else
          (case EscapeSequence sc of
             Matched body sc1 \<Rightarrow> BasicString_loop sc1 (acc @ [body])
           | NotMatched sc1 \<Rightarrow> BasicString_loop (next1 sc1) (acc @ [char sc1 0])
           | Throw e sc1 \<Rightarrow> Throw e sc1
           | OutOfFuel \<Rightarrow> OutOfFuel)
      else if eof sc
      then Throw (TOMLParseError (js ''Single-line string is not closed:'' @ [10] @ concat acc)) sc
      else Matched (concat acc) (next1 sc))"
  by pat_completeness auto
termination
proof (relation "measure (\<lambda>(sc, acc). length (source sc) - position sc)", goal_cases)
  case (2 sc acc body sc1)
  then show ?case using EscapeSequence_Matched [of sc body sc1] by (auto simp: eof_def)
next
  case (3 sc acc sc1)
  then show ?case using EscapeSequence_NotMatched [of sc sc1] by (auto simp: eof_def next_n_def)
qed simp

declare BasicString_loop.simps [simp del]

definition BasicString :: "jsstring parser" where
  "BasicString scanner =
     after_skip inline_options scanner (\<lambda>sc1.
       if char sc1 0 = [34] then BasicString_loop (next1 sc1) [] else NotMatched sc1)"

text \<open>\<open>LiteralString\<close>.\<close>

function LiteralString_loop :: "Scanner \<Rightarrow> jsstring list \<Rightarrow> jsstring result" where
  "LiteralString_loop sc acc =
     (if char sc 0 \<noteq> [39] \<and> \<not> eof sc then
        if char sc 0 = [10]
        then Throw (TOMLParseError (js ''Single-line string cannot contain EOL'')) sc
        else LiteralString_loop (next1 sc) (acc @ [char sc 0])
      else if eof sc
      then Throw (TOMLParseError (js ''Single-line string is not closed:'' @ [10] @ concat acc)) sc
      else Matched (concat acc) (next1 sc))"
  by pat_completeness auto
termination
  by (relation "measure (\<lambda>(sc, acc). length (source sc) - position sc)")
     (auto simp: eof_def next_n_def)

declare LiteralString_loop.simps [simp del]

definition LiteralString :: "jsstring parser" where
  "LiteralString scanner =
     after_skip inline_options scanner (\<lambda>sc1.
       if char sc1 0 = [39] then LiteralString_loop (next1 sc1) [] else NotMatched sc1)"


text \<open>\<open>MultilineBasicString\<close>.\<close>

function MultilineBasicString_loop :: "Scanner \<Rightarrow> jsstring list \<Rightarrow> jsstring result" where
  "MultilineBasicString_loop sc acc =
     (if slice sc 0 3 \<noteq> [34, 34, 34] \<and> \<not> eof sc then
        if slice sc 0 2 = [92, 10]
        then after_skip no_comment_options (next1 sc) (\<lambda>sc1. MultilineBasicString_loop sc1 acc)
        else if slice sc 0 3 = [92, 13, 10]
        then after_skip no_comment_options (next1 sc) (\<lambda>sc1. MultilineBasicString_loop sc1 acc)
        else
          (case EscapeSequence sc of
             Matched body sc1 \<Rightarrow> MultilineBasicString_loop sc1 (acc @ [body])
           | NotMatched sc1 \<Rightarrow> MultilineBasicString_loop (next1 sc1) (acc @ [char sc1 0])
           | Throw e sc1 \<Rightarrow> Throw e sc1
           | OutOfFuel \<Rightarrow> OutOfFuel)
      else if eof sc
      then Throw (TOMLParseError (js ''Multi-line string is not closed:'' @ [10] @ concat acc)) sc
      else if char sc 3 = [34]
      then Matched (concat (acc @ [[34]])) (next_n 3 (next1 sc))
      else Matched (concat acc) (next_n 3 sc))"
  by pat_completeness auto
termination
proof (relation "measure (\<lambda>(sc, acc). length (source sc) - position sc)", goal_cases)
  case (2 sc acc sc1)
  then show ?case using nextUntilChar_Inr [of no_comment_options "next1 sc" sc1]
    by (auto simp: eof_def next_n_def)
next
  case (3 sc acc sc1)
  then show ?case using nextUntilChar_Inr [of no_comment_options "next1 sc" sc1]
    by (auto simp: eof_def next_n_def)
next
  case (4 sc acc body sc1)
  then show ?case using EscapeSequence_Matched [of sc body sc1] by (auto simp: eof_def)
next
  case (5 sc acc sc1)
  then show ?case using EscapeSequence_NotMatched [of sc sc1] by (auto simp: eof_def next_n_def)
qed simp

declare MultilineBasicString_loop.simps [simp del]

text \<open>The trimming of the first newline, shared by both multi-line strings.\<close>

definition trim_first_newline :: "Scanner \<Rightarrow> Scanner" where
  "trim_first_newline sc =
     (if char sc 0 = [10] then next1 sc
      else if slice sc 0 2 = [13, 10] then next_n 2 sc
      else sc)"

definition MultilineBasicString :: "jsstring parser" where
  "MultilineBasicString scanner =
     after_skip inline_options scanner (\<lambda>sc1.
       if slice sc1 0 3 = [34, 34, 34]
       then MultilineBasicString_loop (trim_first_newline (next_n 3 sc1)) []
       else NotMatched sc1)"

text \<open>\<open>MultilineLiteralString\<close>.\<close>

function MultilineLiteralString_loop :: "Scanner \<Rightarrow> jsstring list \<Rightarrow> jsstring result" where
  "MultilineLiteralString_loop sc acc =
     (if slice sc 0 3 \<noteq> [39, 39, 39] \<and> \<not> eof sc
      then MultilineLiteralString_loop (next1 sc) (acc @ [char sc 0])
      else if eof sc
      then Throw (TOMLParseError (js ''Multi-line string is not closed:'' @ [10] @ concat acc)) sc
      else if char sc 3 = [39]
      then Matched (concat (acc @ [[39]])) (next_n 3 (next1 sc))
      else Matched (concat acc) (next_n 3 sc))"
  by pat_completeness auto
termination
  by (relation "measure (\<lambda>(sc, acc). length (source sc) - position sc)")
     (auto simp: eof_def next_n_def)

declare MultilineLiteralString_loop.simps [simp del]

definition MultilineLiteralString :: "jsstring parser" where
  "MultilineLiteralString scanner =
     after_skip inline_options scanner (\<lambda>sc1.
       if slice sc1 0 3 = [39, 39, 39]
       then MultilineLiteralString_loop (trim_first_newline (next_n 3 sc1)) []
       else NotMatched sc1)"

text \<open>\<open>Symbols\<close>.\<close>

definition symbolPairs :: "(jsstring \<times> jsvalue) list" where
  "symbolPairs =
     [(js ''true'', VBoolean True),
      (js ''false'', VBoolean False),
      (js ''inf'', VNumber PosInfinity),
      (js ''+inf'', VNumber PosInfinity),
      (js ''-inf'', VNumber NegInfinity),
      (js ''nan'', VNumber NaN),
      (js ''+nan'', VNumber NaN),
      (js ''-nan'', VNumber NaN)]"

definition Symbols :: "jsvalue parser" where
  "Symbols scanner =
     after_skip inline_options scanner (\<lambda>sc1.
       case find (\<lambda>p. slice sc1 0 (length (fst p)) = fst p) symbolPairs of
         None \<Rightarrow> NotMatched sc1
       | Some found \<Rightarrow> Matched (snd found) (next_n (length (fst found)) sc1))"

text \<open>\<open>DottedKey\<close>.\<close>

definition DottedKey :: "nat \<Rightarrow> jsstring list parser" where
  "DottedKey n = Join n (Or [BareKey, BasicString, LiteralString]) (js ''.'')"

text \<open>
  \<open>parseInt(text)\<close> and \<open>parseFloat(text)\<close>: leading whitespace and a sign are skipped;
  the result is NaN when no numeric literal starts there.
\<close>

definition strip_sign :: "jsstring \<Rightarrow> jsstring" where
  "strip_sign s = (case s of [] \<Rightarrow> [] | c # r \<Rightarrow> if re_sign c then r else s)"

definition parseInt :: "jsstring \<Rightarrow> jsnum" where
  "parseInt s =
     (let u = strip_sign (dropWhile re_s s)
      in if take 2 u = js ''0x'' \<or> take 2 u = js ''0X''
         then (if test is_hex (take 1 (drop 2 u)) then ParseIntOf s else NaN)
         else if test is_digit (take 1 u) then ParseIntOf s else NaN)"

definition parseFloat :: "jsstring \<Rightarrow> jsnum" where
  "parseFloat s =
     (let t = dropWhile re_s s; u = strip_sign t
      in if take 8 u = js ''Infinity''
         then (if take 1 t = js ''-'' then NegInfinity else PosInfinity)
         else if test is_digit (take 1 u) \<or> (take 1 u = js ''.'' \<and> test is_digit (take 1 (drop 1 u)))
         then ParseFloatOf s
         else NaN)"

text \<open>\<open>/0(?:x|o|b)/i\<close>, anywhere in the string.\<close>

fun re_radix :: "jsstring \<Rightarrow> bool" where
  "re_radix (a # b # r) = ((a = 48 \<and> b \<in> {120, 111, 98, 88, 79, 66}) \<or> re_radix (b # r))"
| "re_radix _ = False"

text \<open>The optional sign both number recognizers start with.\<close>

definition take_sign :: "Scanner \<Rightarrow> jsstring list \<times> Scanner" where
  "take_sign sc = (if test re_sign (char sc 0) then ([char sc 0], next1 sc) else ([], sc))"

text \<open>\<open>Integer\<close>.\<close>

definition Integer :: "jsvalue parser" where
  "Integer scanner =
     after_skip inline_options scanner (\<lambda>sc1.
       let first2 = slice sc1 0 2
       in if length first2 = 2 \<and> re_radix first2 then
            (case collect re_hex_us (next_n 2 sc1) [first2] of
               (acc, sc2) \<Rightarrow>
                 if length acc = 1 then NotMatched sc2 else Matched (VString (concat acc)) sc2)
          else
            (case take_sign sc1 of
               (acc0, sc2) \<Rightarrow>
                 (case collect re_digit_us sc2 acc0 of
                    (acc, sc3) \<Rightarrow>
                      if length acc = 0 \<or> (length acc = 1 \<and> test re_sign (acc ! 0))
                      then NotMatched sc3
                      else Matched (VNumber (parseInt (concat (filter (\<lambda>char. char \<noteq> js ''_'') acc)))) sc3)))"

text \<open>\<open>Float\<close>. The lookahead returns false where the source returns \<open>failure()\<close>.\<close>

function Float_lookahead :: "Scanner \<Rightarrow> nat \<Rightarrow> bool" where
  "Float_lookahead sc pos =
     (if char sc pos \<noteq> [] \<and> \<not> test END_OF_VALUE (char sc pos) then
        if \<not> test FLOAT (char sc pos) then False else Float_lookahead sc (pos + 1)
      else True)"
  by pat_completeness auto
termination
  by (relation "measure (\<lambda>(sc, pos). length (source sc) - (position sc + pos))")
     (auto simp: char_def split: if_splits)

declare Float_lookahead.simps [simp del]

definition Float :: "jsvalue parser" where
  "Float scanner =
     after_skip inline_options scanner (\<lambda>sc1.
       if \<not> Float_lookahead sc1 0 then NotMatched sc1
       else
         (case take_sign sc1 of
            (acc0, sc2) \<Rightarrow>
              (case collect FLOAT sc2 acc0 of
                 (acc, sc3) \<Rightarrow>
                   if length acc = 0 then NotMatched sc3
                   else
                     let float = parseFloat (concat (filter (\<lambda>char. char \<noteq> js ''_'') acc))
                     in if float = NaN then NotMatched sc3 else Matched (VNumber float) sc3)))"

text \<open>
  \<open>DateTime\<close>. Which strings \<open>new Date\<close> accepts beyond the ISO format is left to the
  host, so the recognizer takes the host's validity test as its first argument.
\<close>

definition re_date :: "jsstring \<Rightarrow> bool" where
  "re_date s =
     (length s \<ge> 10 \<and> list_all is_digit (take 4 s) \<and> s ! 4 = 45 \<and>
      list_all is_digit (take 2 (drop 5 s)) \<and> s ! 7 = 45 \<and> list_all is_digit (take 2 (drop 8 s)))"

definition trim :: "jsstring \<Rightarrow> jsstring" where
  "trim s = rev (dropWhile re_s (rev (dropWhile re_s s)))"

definition DateTime :: "(jsstring \<Rightarrow> bool) \<Rightarrow> jsvalue parser" where
  "DateTime dateValid scanner =
     after_skip inline_options scanner (\<lambda>sc1.
       let dateStr = slice sc1 0 10
       in if re_date dateStr then
            (case collect re_datetime (next_n 10 sc1) [] of
               (acc, sc2) \<Rightarrow>
                 let dateStr' = dateStr @ concat acc
                 in if \<not> dateValid (trim dateStr')
                    then Throw (TOMLParseError (js ''Invalid date string '' @ [34] @ dateStr' @ [34])) sc2
                    else Matched (VDate (trim dateStr')) sc2)
          else NotMatched sc1)"

text \<open>\<open>LocalTime\<close>.\<close>

definition re_time :: "jsstring \<Rightarrow> bool" where
  "re_time s =
     (length s \<ge> 8 \<and> list_all is_digit (take 2 s) \<and> s ! 2 = 58 \<and>
      list_all is_digit (take 2 (drop 3 s)) \<and> s ! 5 = 58 \<and> list_all is_digit (take 2 (drop 6 s)))"

definition LocalTime :: "jsvalue parser" where
  "LocalTime scanner =
     after_skip inline_options scanner (\<lambda>sc1.
       let timeStr = slice sc1 0 8
       in if re_time timeStr then
            (let sc2 = next_n 8 sc1
             in if char sc2 0 = js ''.''
                then (case collect is_digit (next1 sc2) [char sc2 0] of
                        (acc, sc3) \<Rightarrow> Matched (VString (timeStr @ concat acc)) sc3)
                else Matched (VString timeStr) sc2)
          else NotMatched sc1)"


section \<open>Grammar\<close>

text \<open>
  A string recognizer used at a value position: its body is the string value.
\<close>

definition as_value :: "jsstring parser \<Rightarrow> jsvalue parser" where
  "as_value parser scanner =
     on_result (parser scanner) (\<lambda>body sc. Matched (VString body) sc) (\<lambda>sc. NotMatched sc)"

text \<open>
  \<open>ArrayValue\<close>, \<open>InlineTable\<close> and \<open>Value\<close> call each other. The first two take the
  value parser they call as an argument, and \<open>Value\<close> hands itself over with one unit
  less of nesting budget.
\<close>

definition ArrayValue_close :: "jsvalue list \<Rightarrow> jsvalue parser" where
  "ArrayValue_close array scanner =
     after_skip default_options scanner (\<lambda>sc1.
       if char sc1 0 = js '']'' then Matched (VArray array) (next1 sc1)
       else Throw (TOMLParseError (js ''Array is not closed'')) sc1)"

fun ArrayValue_loop :: "nat \<Rightarrow> jsvalue parser \<Rightarrow> jsvalue list \<Rightarrow> jsvalue parser" where
  "ArrayValue_loop 0 Value array scanner = OutOfFuel"
| "ArrayValue_loop (Suc n) Value array scanner =
     (if \<not> eof scanner then
        after_skip default_options scanner (\<lambda>sc1.
          on_result (Value sc1)
            (\<lambda>body sc2.
               after_skip inline_options sc2 (\<lambda>sc3.
                 if char sc3 0 = js '','' then ArrayValue_loop n Value (array @ [body]) (next1 sc3)
                 else ArrayValue_close (array @ [body]) sc3))
            (\<lambda>sc2. ArrayValue_close array sc2))
      else ArrayValue_close array scanner)"

definition ArrayValue :: "nat \<Rightarrow> jsvalue parser \<Rightarrow> jsvalue parser" where
  "ArrayValue n Value scanner =
     after_skip inline_options scanner (\<lambda>sc1.
       if char sc1 0 = js ''['' then ArrayValue_loop n Value [] (next1 sc1)
       else NotMatched sc1)"

definition Pair_of :: "nat \<Rightarrow> jsvalue parser \<Rightarrow> jsvalue parser" where
  "Pair_of n Value = Kv (DottedKey n) (js ''='') Value"

definition InlineTable :: "nat \<Rightarrow> jsvalue parser \<Rightarrow> jsvalue parser" where
  "InlineTable n Value scanner =
     after_skip default_options scanner (\<lambda>sc1.
       if char sc1 1 = js ''}'' then Matched (VObject []) (next_n 2 sc1)
       else
         on_result (Surround (js ''{'') (Join n (Pair_of n Value) (js '','')) (js ''}'') sc1)
           (\<lambda>pairs sc2. Matched (foldl deepMerge (VObject []) pairs) sc2)
           (\<lambda>sc2. NotMatched sc2))"

fun Value :: "(jsstring \<Rightarrow> bool) \<Rightarrow> nat \<Rightarrow> jsvalue parser" where
  "Value dateValid 0 scanner = OutOfFuel"
| "Value dateValid (Suc n) scanner =
     Or [as_value MultilineBasicString,
         as_value MultilineLiteralString,
         as_value BasicString,
         as_value LiteralString,
         Symbols,
         DateTime dateValid,
         LocalTime,
         Float,
         Integer,
         ArrayValue n (Value dateValid n),
         InlineTable n (Value dateValid n)] scanner"

definition Pair :: "(jsstring \<Rightarrow> bool) \<Rightarrow> nat \<Rightarrow> jsvalue parser" where
  "Pair dateValid n = Pair_of n (Value dateValid n)"

definition Block :: "(jsstring \<Rightarrow> bool) \<Rightarrow> nat \<Rightarrow> table parser" where
  "Block dateValid n scanner =
     after_skip default_options scanner (\<lambda>sc1.
       on_result (Merge (Repeat n (Pair dateValid n)) sc1)
         (\<lambda>body sc2. Matched \<lparr>tbl_type = Block_type, tbl_key = [], tbl_value = body\<rparr> sc2)
         (\<lambda>sc2. NotMatched sc2))"

definition TableHeader :: "nat \<Rightarrow> jsstring list parser" where
  "TableHeader n = Surround (js ''['') (DottedKey n) (js '']'')"

text \<open>The block after a header: \<open>block.ok ? block.body.value : {}\<close>.\<close>

definition header_block :: "(jsstring \<Rightarrow> bool) \<Rightarrow> nat \<Rightarrow> table_type \<Rightarrow> jsstring list \<Rightarrow> table parser" where
  "header_block dateValid n ty header scanner =
     after_skip default_options scanner (\<lambda>sc1.
       case Block dateValid n sc1 of
         Matched block sc2 \<Rightarrow>
           Matched \<lparr>tbl_type = ty, tbl_key = header, tbl_value = tbl_value block\<rparr> sc2
       | NotMatched sc2 \<Rightarrow>
           Matched \<lparr>tbl_type = ty, tbl_key = header, tbl_value = VObject []\<rparr> sc2
       | Throw e sc2 \<Rightarrow> Throw e sc2
       | OutOfFuel \<Rightarrow> OutOfFuel)"

definition Table :: "(jsstring \<Rightarrow> bool) \<Rightarrow> nat \<Rightarrow> table parser" where
  "Table dateValid n scanner =
     after_skip default_options scanner (\<lambda>sc1.
       on_result (TableHeader n sc1)
         (\<lambda>header sc2. header_block dateValid n Table_type header sc2)
         (\<lambda>sc2. NotMatched sc2))"

definition TableArrayHeader :: "nat \<Rightarrow> jsstring list parser" where
  "TableArrayHeader n = Surround (js ''[['') (DottedKey n) (js '']]'')"

definition TableArray :: "(jsstring \<Rightarrow> bool) \<Rightarrow> nat \<Rightarrow> table parser" where
  "TableArray dateValid n scanner =
     after_skip default_options scanner (\<lambda>sc1.
       on_result (TableArrayHeader n sc1)
         (\<lambda>header sc2. header_block dateValid n TableArray_type header sc2)
         (\<lambda>sc2. NotMatched sc2))"

text \<open>The loop of \<open>Toml\<close> over the blocks.\<close>

fun Toml_body :: "table list \<Rightarrow> jsvalue \<Rightarrow> thrown + jsvalue" where
  "Toml_body [] body = Inr body"
| "Toml_body (block # blocks) body =
     (case tbl_type block of
        Block_type \<Rightarrow> Toml_body blocks (deepMerge body (tbl_value block))
      | Table_type \<Rightarrow>
          (case deepAssignWithTable body block of
             Inl e \<Rightarrow> Inl e
           | Inr body' \<Rightarrow> Toml_body blocks body')
      | TableArray_type \<Rightarrow>
          (case deepAssignWithTable body block of
             Inl e \<Rightarrow> Inl e
           | Inr body' \<Rightarrow> Toml_body blocks body'))"

definition Toml :: "(jsstring \<Rightarrow> bool) \<Rightarrow> nat \<Rightarrow> jsvalue parser" where
  "Toml dateValid n scanner =
     on_result (Repeat n (Or [Block dateValid n, TableArray dateValid n, Table dateValid n]) scanner)
       (\<lambda>blocks sc1.
          case Toml_body blocks (VObject []) of
            Inl e \<Rightarrow> Throw e sc1
          | Inr body \<Rightarrow> Matched body sc1)
       (\<lambda>sc1. NotMatched sc1)"

section \<open>Driver\<close>

text \<open>\<open>subStr.split("\n")\<close>.\<close>

fun split_lf :: "jsstring \<Rightarrow> jsstring list" where
  "split_lf [] = [[]]"
| "split_lf (c # cs) =
     (if c = 10 then [] # split_lf cs
      else (c # hd (split_lf cs)) # tl (split_lf cs))"

text \<open>The loop that computes the column.\<close>

fun column_loop :: "nat \<Rightarrow> jsstring list \<Rightarrow> nat" where
  "column_loop count [] = count"
| "column_loop count (line # lines) =
     (if count > length line then column_loop (count - (length line + 1)) lines else count)"

definition parse_error :: "jsstring \<Rightarrow> Scanner \<Rightarrow> thrown option \<Rightarrow> thrown" where
  "parse_error tomlString scanner err =
     (let subStr = take (position scanner) tomlString;
          lines = split_lf subStr;
          row = length lines;
          column = column_loop (length subStr) lines
      in TOMLParseError
           (js ''Parse error on line '' @ toString_radix 10 row @ js '', column ''
              @ toString_radix 10 column @ js '': ''
              @ (case err of
                   Some e \<Rightarrow> message e
                 | None \<Rightarrow> js ''Unexpected character: '' @ [34] @ char scanner 0 @ [34])))"

text \<open>
  \<open>ParserFactory(parser)\<close>: the result is the value returned or the error thrown, and
  \<open>None\<close> when the parser it is given does not return.
\<close>

definition ParserFactory :: "'a parser \<Rightarrow> jsstring \<Rightarrow> (thrown + 'a) option" where
  "ParserFactory parser tomlString =
     (case parser (new_Scanner tomlString) of
        OutOfFuel \<Rightarrow> None
      | Throw e scanner \<Rightarrow>
          Some (Inl (parse_error tomlString scanner
                  (Some (if instanceof_Error e then e else Error (js ''[non-error thrown]'')))))
      | NotMatched scanner \<Rightarrow> Some (Inl (parse_error tomlString scanner None))
      | Matched body scanner \<Rightarrow>
          if \<not> eof scanner then Some (Inl (parse_error tomlString scanner None))
          else Some (Inr body))"

text \<open>
  \<open>parse = ParserFactory(Toml)\<close>. The budget handed to the grammar is one more than the
  length of the text; \<open>Toml_returns\<close> below shows that it is never used up.
\<close>

definition parse :: "(jsstring \<Rightarrow> bool) \<Rightarrow> jsstring \<Rightarrow> (thrown + jsvalue) option" where
  "parse dateValid tomlString =
     ParserFactory (Toml dateValid (Suc (length tomlString))) tomlString"


section \<open>The dumper\<close>

text \<open>
  What the dumper needs of the host. \<open>number_text\<close> is \<open>Number.prototype.toString\<close> on
  a number that the model carries as the call that produced it (the text may be
  \<open>Infinity\<close>: \<open>parseFloat\<close> of a long literal overflows). \<open>date_utc\<close> gives the UTC
  fields of the date made from a text, or nothing when the date is invalid.
\<close>

record utc_fields =
  utc_year :: int
  utc_month :: nat
  utc_date :: nat
  utc_hours :: nat
  utc_minutes :: nat
  utc_seconds :: nat
  utc_milliseconds :: nat

record host =
  number_text :: "jsnum \<Rightarrow> jsstring"
  date_utc :: "jsstring \<Rightarrow> utc_fields option"

text \<open>\<open>String(value)\<close> on a number.\<close>

definition Number_toString :: "host \<Rightarrow> jsnum \<Rightarrow> jsstring" where
  "Number_toString h n =
     (case n of
        NaN \<Rightarrow> js ''NaN''
      | PosInfinity \<Rightarrow> js ''Infinity''
      | NegInfinity \<Rightarrow> js ''-Infinity''
      | _ \<Rightarrow> number_text h n)"

definition int_toString :: "int \<Rightarrow> jsstring" where
  "int_toString i = (if i < 0 then js ''-'' @ toString_radix 10 (nat (- i)) else toString_radix 10 (nat i))"

text \<open>\<open>Array.prototype.join\<close> on strings.\<close>

fun join_str :: "jsstring \<Rightarrow> jsstring list \<Rightarrow> jsstring" where
  "join_str sep [] = []"
| "join_str sep [x] = x"
| "join_str sep (x # y # r) = x @ sep @ join_str sep (y # r)"

text \<open>
  \<open>JSON.stringify\<close> on a string: the quotes, the two-character escapes, and
  a backslash, \<open>u\<close> and four lower-case hexadecimal digits for the other control characters and
  for a surrogate that is not part of a pair.
\<close>

definition hex4 :: "cu \<Rightarrow> jsstring" where
  "hex4 c = map digit_char [c div 4096 mod 16, c div 256 mod 16, c div 16 mod 16, c mod 16]"

definition is_high_surrogate :: "cu \<Rightarrow> bool" where
  "is_high_surrogate c = (55296 \<le> c \<and> c \<le> 56319)"

definition is_low_surrogate :: "cu \<Rightarrow> bool" where
  "is_low_surrogate c = (56320 \<le> c \<and> c \<le> 57343)"

definition quote_unit :: "cu \<Rightarrow> jsstring" where
  "quote_unit c =
     (if c = 8 then [92, 98]
      else if c = 9 then [92, 116]
      else if c = 10 then [92, 110]
      else if c = 12 then [92, 102]
      else if c = 13 then [92, 114]
      else if c = 34 then [92, 34]
      else if c = 92 then [92, 92]
      else if c < 32 \<or> is_high_surrogate c \<or> is_low_surrogate c then [92, 117] @ hex4 c
      else [c])"

fun quote_units :: "jsstring \<Rightarrow> jsstring" where
  "quote_units [] = []"
| "quote_units [c] = quote_unit c"
| "quote_units (c # d # r) =
     (if is_high_surrogate c \<and> is_low_surrogate d then c # d # quote_units r
      else quote_unit c @ quote_units (d # r))"

definition JSON_stringify_string :: "jsstring \<Rightarrow> jsstring" where
  "JSON_stringify_string s = [34] @ quote_units s @ [34]"

text \<open>\<open>joinKeys\<close>.\<close>

definition is_bare_unit :: "cu \<Rightarrow> bool" where
  "is_bare_unit c =
     ((65 \<le> c \<and> c \<le> 90) \<or> (97 \<le> c \<and> c \<le> 122) \<or> (48 \<le> c \<and> c \<le> 57) \<or> c = 95 \<or> c = 45)"

definition joinKeys :: "jsstring list \<Rightarrow> jsstring" where
  "joinKeys keys =
     join_str (js ''.'')
       (map (\<lambda>str. if length str = 0 \<or> list_ex (\<lambda>c. \<not> is_bare_unit c) str
                    then JSON_stringify_string str else str) keys)"

text \<open>
  \<open>Object.keys\<close>: the keys that are array indices come first, in ascending order, then
  the other keys in insertion order. On an array the keys are its indices, on a string
  the indices of its code units, on another primitive there are none, and on
  \<open>undefined\<close> the call throws. The entries pair each key with \<open>obj[key]\<close>.
\<close>

definition own_order :: "(jsstring \<times> 'a) list \<Rightarrow> (jsstring \<times> 'a) list" where
  "own_order kvs =
     sort_key (\<lambda>kv. the (array_index (fst kv))) (filter (\<lambda>kv. array_index (fst kv) \<noteq> None) kvs)
       @ filter (\<lambda>kv. array_index (fst kv) = None) kvs"

definition indexed :: "'a list \<Rightarrow> (jsstring \<times> 'a) list" where
  "indexed xs = zip (map (toString_radix 10) [0..<length xs]) xs"

definition own_entries :: "jsvalue \<Rightarrow> thrown + (jsstring \<times> jsvalue) list" where
  "own_entries obj =
     (case obj of
        VUndefined \<Rightarrow> Inl (TypeError (js ''Cannot convert undefined or null to object''))
      | VObject kvs \<Rightarrow> Inr (own_order kvs)
      | VArray xs \<Rightarrow> Inr (indexed xs)
      | VString s \<Rightarrow> Inr (indexed (map (\<lambda>c. VString [c]) s))
      | _ \<Rightarrow> Inr [])"

text \<open>\<open>#printDate\<close>. Every getter of an invalid date returns NaN.\<close>

definition padStart :: "nat \<Rightarrow> jsstring \<Rightarrow> jsstring" where
  "padStart n s = replicate (n - length s) 48 @ s"

definition printDate :: "host \<Rightarrow> jsstring \<Rightarrow> jsstring" where
  "printDate hst value =
     (case date_utc hst value of
        None \<Rightarrow> js ''NaN-NaN-NaNTNaN:NaN:NaN.NaN''
      | Some u \<Rightarrow>
          let m = padStart 2 (toString_radix 10 (utc_month u + 1));
              d = padStart 2 (toString_radix 10 (utc_date u));
              h = padStart 2 (toString_radix 10 (utc_hours u));
              min = padStart 2 (toString_radix 10 (utc_minutes u));
              s = padStart 2 (toString_radix 10 (utc_seconds u));
              ms = padStart 3 (toString_radix 10 (utc_milliseconds u))
          in int_toString (utc_year u) @ js ''-'' @ m @ js ''-'' @ d @ js ''T'' @ h @ js '':''
               @ min @ js '':'' @ s @ js ''.'' @ ms)"

text \<open>
  \<open>JSON.stringify\<close> on an array. The dumper calls it on an array of primitives only:
  a string, a boolean, a number (\<open>null\<close> unless it is finite) or a date
  (\<open>toISOString\<close> in quotes, \<open>null\<close> for an invalid date).
\<close>

definition toISOString :: "utc_fields \<Rightarrow> jsstring" where
  "toISOString u =
     (let y = utc_year u
      in (if 0 \<le> y \<and> y \<le> 9999 then padStart 4 (toString_radix 10 (nat y))
          else (if y < 0 then js ''-'' else js ''+'') @ padStart 6 (toString_radix 10 (nat \<bar>y\<bar>)))
         @ js ''-'' @ padStart 2 (toString_radix 10 (utc_month u + 1))
         @ js ''-'' @ padStart 2 (toString_radix 10 (utc_date u))
         @ js ''T'' @ padStart 2 (toString_radix 10 (utc_hours u))
         @ js '':'' @ padStart 2 (toString_radix 10 (utc_minutes u))
         @ js '':'' @ padStart 2 (toString_radix 10 (utc_seconds u))
         @ js ''.'' @ padStart 3 (toString_radix 10 (utc_milliseconds u)) @ js ''Z'')"

definition is_finite :: "host \<Rightarrow> jsnum \<Rightarrow> bool" where
  "is_finite h n = (Number_toString h n \<notin> {js ''NaN'', js ''Infinity'', js ''-Infinity''})"

fun JSON_stringify_primitive :: "host \<Rightarrow> jsvalue \<Rightarrow> jsstring" where
  "JSON_stringify_primitive h (VString s) = JSON_stringify_string s"
| "JSON_stringify_primitive h (VBoolean b) = (if b then js ''true'' else js ''false'')"
| "JSON_stringify_primitive h (VNumber n) = (if is_finite h n then Number_toString h n else js ''null'')"
| "JSON_stringify_primitive h (VDate d) =
     (case date_utc h d of None \<Rightarrow> js ''null'' | Some u \<Rightarrow> [34] @ toISOString u @ [34])"

definition JSON_stringify_array :: "host \<Rightarrow> jsvalue list \<Rightarrow> jsstring" where
  "JSON_stringify_array h xs = js ''['' @ join_str (js '','') (map (JSON_stringify_primitive h) xs) @ js '']''"

text \<open>\<open>#isPrimitive\<close> and \<open>#doGetTypeOfArray\<close>; the cache of \<open>#getTypeOfArray\<close> changes no result.\<close>

fun isPrimitive :: "jsvalue \<Rightarrow> bool" where
  "isPrimitive (VDate _) = True"
| "isPrimitive (VString _) = True"
| "isPrimitive (VNumber _) = True"
| "isPrimitive (VBoolean _) = True"
| "isPrimitive _ = False"

fun is_Array :: "jsvalue \<Rightarrow> bool" where
  "is_Array (VArray _) = True"
| "is_Array _ = False"

datatype array_type = ONLY_PRIMITIVE | ONLY_OBJECT_EXCLUDING_ARRAY | MIXED

definition getTypeOfArray :: "jsvalue list \<Rightarrow> array_type" where
  "getTypeOfArray arr =
     (case arr of
        [] \<Rightarrow> ONLY_PRIMITIVE
      | first # others \<Rightarrow>
          let onlyPrimitive = isPrimitive first
          in if is_Array first then MIXED
             else if list_ex (\<lambda>x. onlyPrimitive \<noteq> isPrimitive x \<or> is_Array x) others then MIXED
             else if onlyPrimitive then ONLY_PRIMITIVE else ONLY_OBJECT_EXCLUDING_ARRAY)"

text \<open>\<open>#isSimplySerializable\<close>.\<close>

fun isSimplySerializable :: "jsvalue \<Rightarrow> bool" where
  "isSimplySerializable (VString _) = True"
| "isSimplySerializable (VNumber _) = True"
| "isSimplySerializable (VBoolean _) = True"
| "isSimplySerializable (VDate _) = True"
| "isSimplySerializable (VArray xs) = (getTypeOfArray xs \<noteq> ONLY_OBJECT_EXCLUDING_ARRAY)"
| "isSimplySerializable _ = False"

text \<open>A \<open>map\<close> whose callback may throw: the first throw ends it.\<close>

primrec map_sum :: "('a \<Rightarrow> 'e + 'b) \<Rightarrow> 'a list \<Rightarrow> 'e + 'b list" where
  "map_sum f [] = Inr []"
| "map_sum f (x # xs) =
     (case f x of
        Inl e \<Rightarrow> Inl e
      | Inr y \<Rightarrow> (case map_sum f xs of Inl e \<Rightarrow> Inl e | Inr ys \<Rightarrow> Inr (y # ys)))"

lemma map_sum_cong [fundef_cong]:
  "xs = ys \<Longrightarrow> (\<And>x. x \<in> set ys \<Longrightarrow> f x = g x) \<Longrightarrow> map_sum f xs = map_sum g ys"
  by (induction ys arbitrary: xs) (auto split: sum.splits)

lemma set_own_order [simp]: "set (own_order kvs) = set kvs"
  by (auto simp: own_order_def)

lemma size_entry:
  "p \<in> set kvs \<Longrightarrow> size (snd p) < Suc (size_list (size_prod (\<lambda>x. 0) size) kvs)"
  by (induction kvs) auto

lemma size_element: "x \<in> set xs \<Longrightarrow> size x < Suc (size_list size xs)"
  by (induction xs) auto

lemma set_indexed: "(k, v) \<in> set (indexed xs) \<Longrightarrow> v \<in> set xs"
  by (auto simp: indexed_def dest: set_zip_rightD)

text \<open>\<open>#printAsInlineValue\<close>. A number is returned as it is and made a string by the caller.\<close>

function printAsInlineValue :: "host \<Rightarrow> jsvalue \<Rightarrow> thrown + jsstring" where
  "printAsInlineValue h v =
     (case v of
        VDate d \<Rightarrow> Inr ([34] @ printDate h d @ [34])
      | VString s \<Rightarrow> Inr (JSON_stringify_string s)
      | VNumber n \<Rightarrow> Inr (Number_toString h n)
      | VBoolean b \<Rightarrow> Inr (if b then js ''true'' else js ''false'')
      | VArray xs \<Rightarrow>
          (case map_sum (printAsInlineValue h) xs of
             Inl e \<Rightarrow> Inl e
           | Inr strs \<Rightarrow> Inr (js ''['' @ join_str (js '','') strs @ js '']''))
      | VObject kvs \<Rightarrow>
          (case map_sum (\<lambda>kv.
                  case printAsInlineValue h (snd kv) of
                    Inl e \<Rightarrow> Inl e
                  | Inr str \<Rightarrow> Inr (joinKeys [fst kv] @ js '' = '' @ str)) (own_order kvs) of
             Inl e \<Rightarrow> Inl e
           | Inr strs \<Rightarrow> Inr (js ''{'' @ join_str (js '','') strs @ js ''}''))
      | VUndefined \<Rightarrow> Inl (Error (js ''should never reach'')))"
  by pat_completeness auto
termination
proof (relation "measure (\<lambda>(h, v). size v)", goal_cases)
  case (2 h v xs x)
  then show ?case by (simp add: size_element)
next
  case (3 h v kvs kv)
  then show ?case using size_entry [of kv kvs] by simp
qed simp

declare printAsInlineValue.simps [simp del]

text \<open>The declarations of \<open>Dumper\<close>, with the default options: no key alignment.\<close>

definition header_of :: "jsstring list \<Rightarrow> jsstring" where
  "header_of keys = js ''['' @ joinKeys keys @ js '']''"

definition headerGroup :: "jsstring list \<Rightarrow> jsstring" where
  "headerGroup keys = js ''[['' @ joinKeys keys @ js '']]''"

definition declaration_of :: "jsstring list \<Rightarrow> jsstring" where
  "declaration_of keys = joinKeys keys @ js '' = ''"

definition arrayDeclaration :: "host \<Rightarrow> jsstring list \<Rightarrow> jsvalue list \<Rightarrow> jsstring" where
  "arrayDeclaration h keys value = declaration_of keys @ JSON_stringify_array h value"

definition strDeclaration :: "jsstring list \<Rightarrow> jsstring \<Rightarrow> jsstring" where
  "strDeclaration keys value = declaration_of keys @ JSON_stringify_string value"

definition numberDeclaration :: "host \<Rightarrow> jsstring list \<Rightarrow> jsnum \<Rightarrow> jsstring" where
  "numberDeclaration h keys value =
     (if Number_toString h value = js ''Infinity'' then declaration_of keys @ js ''inf''
      else if Number_toString h value = js ''-Infinity'' then declaration_of keys @ js ''-inf''
      else declaration_of keys @ Number_toString h value)"

definition boolDeclaration :: "jsstring list \<Rightarrow> bool \<Rightarrow> jsstring" where
  "boolDeclaration keys value = declaration_of keys @ (if value then js ''true'' else js ''false'')"

definition dateDeclaration :: "host \<Rightarrow> jsstring list \<Rightarrow> jsstring \<Rightarrow> jsstring" where
  "dateDeclaration h keys value = declaration_of keys @ printDate h value"

text \<open>\<open>#printObject\<close>.\<close>

function printObject :: "host \<Rightarrow> jsvalue \<Rightarrow> jsstring list \<Rightarrow> thrown + jsstring list" where
  "printObject h obj keys =
     (case own_entries obj of
        Inl e \<Rightarrow> Inl e
      | Inr props \<Rightarrow>
          let inlineProps = filter (\<lambda>p. isSimplySerializable (snd p)) props;
              multilineProps = filter (\<lambda>p. \<not> isSimplySerializable (snd p)) props;
              sortedProps = inlineProps @ multilineProps
          in (case map_sum (\<lambda>p.
                  let prop = fst p
                  in (case snd p of
                        VDate d \<Rightarrow> Inr [dateDeclaration h [prop] d]
                      | VString s \<Rightarrow> Inr [strDeclaration [prop] s]
                      | VNumber n \<Rightarrow> Inr [numberDeclaration h [prop] n]
                      | VBoolean b \<Rightarrow> Inr [boolDeclaration [prop] b]
                      | VArray value \<Rightarrow>
                          (case getTypeOfArray value of
                             ONLY_PRIMITIVE \<Rightarrow> Inr [arrayDeclaration h [prop] value]
                           | ONLY_OBJECT_EXCLUDING_ARRAY \<Rightarrow>
                               (case map_sum (\<lambda>x.
                                       case printObject h x (keys @ [prop]) of
                                         Inl e \<Rightarrow> Inl e
                                       | Inr lines \<Rightarrow> Inr ([[], headerGroup (keys @ [prop])] @ lines))
                                     value of
                                  Inl e \<Rightarrow> Inl e
                                | Inr groups \<Rightarrow> Inr (concat groups))
                           | MIXED \<Rightarrow>
                               (case map_sum (printAsInlineValue h) value of
                                  Inl e \<Rightarrow> Inl e
                                | Inr strs \<Rightarrow>
                                    Inr [declaration_of [prop] @ js ''['' @ join_str (js '','') strs @ js '']'']))
                      | VObject kvs \<Rightarrow>
                          (case printObject h (snd p) (keys @ [prop]) of
                             Inl e \<Rightarrow> Inl e
                           | Inr lines \<Rightarrow> Inr ([[], header_of (keys @ [prop])] @ lines))
                      | VUndefined \<Rightarrow> Inr [])) sortedProps of
                Inl e \<Rightarrow> Inl e
              | Inr outs \<Rightarrow> Inr (concat outs @ [[]])))"
  by pat_completeness auto

lemma own_entries_size:
  assumes "own_entries obj = Inr props" "p \<in> set props" "is_Array (snd p) \<or> is_object (snd p)"
  shows "size (snd p) < size obj"
proof (cases obj)
  case (VObject es)
  with assms have "p \<in> set (own_order es)" by (auto simp: own_entries_def)
  then have "p \<in> set es" by simp
  from size_entry [OF this] VObject show ?thesis by simp
next
  case (VArray es)
  with assms have "snd p \<in> set es"
    by (cases p) (auto simp: own_entries_def dest: set_indexed)
  from size_element [OF this] VArray show ?thesis by simp
next
  case (VString s)
  with assms have "snd p \<in> set (map (\<lambda>c. VString [c]) s)"
    by (cases p) (auto simp: own_entries_def dest: set_indexed)
  with VString assms(3) show ?thesis by auto
qed (use assms in \<open>auto simp: own_entries_def\<close>)

termination printObject
proof (relation "measure (\<lambda>(h, obj, keys). size obj)", goal_cases)
  case (2 h obj keys b x xa xb xc xd x6 xe)
  then have "xc \<in> set b" by auto
  from own_entries_size [OF 2(1) this] 2(7) size_element [OF 2(9)]
  show ?case by simp
next
  case (3 h obj keys b x xa xb xc xd x7)
  then have "xc \<in> set b" by auto
  from own_entries_size [OF 3(1) this] 3(7) show ?case by simp
qed simp

declare printObject.simps [simp del]

text \<open>\<open>#format\<close> without key alignment, and the cleaning of doubled empty lines.\<close>

fun format_lines :: "jsstring list \<Rightarrow> jsstring list" where
  "format_lines [] = []"
| "format_lines (l # rest) =
     (if take 1 l = js ''['' \<and> take 1 (drop 1 l) \<noteq> js ''['' then
        (case rest of
           e # l2 # rest' \<Rightarrow>
             if e = [] \<and> take (length l) l2 = butlast l @ js ''.''
             then format_lines (l2 # rest')
             else l # format_lines rest
         | _ \<Rightarrow> l # format_lines rest)
      else l # format_lines rest)"

fun clean_lines :: "jsstring list \<Rightarrow> jsstring list" where
  "clean_lines [] = []"
| "clean_lines (l # rest) =
     (if l = [] \<and> take 1 rest = [[]] then clean_lines rest else l # clean_lines rest)"

text \<open>\<open>stringify(srcObj)\<close>: \<open>new Dumper(srcObj).dump().join("\n")\<close>.\<close>

definition dump :: "host \<Rightarrow> jsvalue \<Rightarrow> thrown + jsstring list" where
  "dump h srcObject =
     (case printObject h srcObject [] of
        Inl e \<Rightarrow> Inl e
      | Inr output \<Rightarrow> Inr (clean_lines (format_lines output)))"

definition stringify :: "host \<Rightarrow> jsvalue \<Rightarrow> thrown + jsstring" where
  "stringify h srcObj =
     (case dump h srcObj of Inl e \<Rightarrow> Inl e | Inr lines \<Rightarrow> Inr (join_str [10] lines))"


section \<open>How parsers move the cursor\<close>

definition le_sc :: "Scanner \<Rightarrow> Scanner \<Rightarrow> bool" where
  "le_sc sc sc' = (source sc' = source sc \<and> position sc \<le> position sc')"

definition lt_sc :: "Scanner \<Rightarrow> Scanner \<Rightarrow> bool" where
  "lt_sc sc sc' = (source sc' = source sc \<and> position sc < position sc')"

definition frame_at :: "'a parser \<Rightarrow> Scanner \<Rightarrow> bool" where
  "frame_at p sc =
     (case p sc of
        Matched body sc' \<Rightarrow> lt_sc sc sc'
      | NotMatched sc' \<Rightarrow> le_sc sc sc'
      | Throw e sc' \<Rightarrow> True
      | OutOfFuel \<Rightarrow> True)"

definition frame :: "'a parser \<Rightarrow> bool" where
  "frame p = (\<forall>sc. frame_at p sc)"

lemma le_sc_refl [simp]: "le_sc sc sc"
  by (simp add: le_sc_def)

lemma le_sc_trans: "le_sc a b \<Longrightarrow> le_sc b c \<Longrightarrow> le_sc a c"
  by (auto simp: le_sc_def)

lemma lt_le_sc: "lt_sc a b \<Longrightarrow> le_sc a b"
  by (auto simp: le_sc_def lt_sc_def)

lemma le_lt_sc: "le_sc a b \<Longrightarrow> lt_sc b c \<Longrightarrow> lt_sc a c"
  by (auto simp: le_sc_def lt_sc_def)

lemma lt_le_sc_trans: "lt_sc a b \<Longrightarrow> le_sc b c \<Longrightarrow> lt_sc a c"
  by (auto simp: le_sc_def lt_sc_def)

lemma le_sc_next_n [simp]: "le_sc sc (next_n k sc)"
  by (simp add: le_sc_def next_n_def)

lemma lt_sc_next_n [simp]: "0 < k \<Longrightarrow> lt_sc sc (next_n k sc)"
  by (simp add: lt_sc_def next_n_def)

lemma nextUntilChar_le: "nextUntilChar opts sc = Inr sc' \<Longrightarrow> le_sc sc sc'"
  using nextUntilChar_Inr [of opts sc sc'] by (simp add: le_sc_def)

lemma frameI:
  assumes "\<And>sc body sc'. p sc = Matched body sc' \<Longrightarrow> lt_sc sc sc'"
    and "\<And>sc sc'. p sc = NotMatched sc' \<Longrightarrow> le_sc sc sc'"
  shows "frame p"
  using assms by (auto simp: frame_def frame_at_def split: result.splits)

lemma frame_Matched: "frame p \<Longrightarrow> p sc = Matched body sc' \<Longrightarrow> lt_sc sc sc'"
  by (auto simp: frame_def frame_at_def split: result.splits dest!: spec [of _ sc])

lemma frame_NotMatched: "frame p \<Longrightarrow> p sc = NotMatched sc' \<Longrightarrow> le_sc sc sc'"
  by (auto simp: frame_def frame_at_def split: result.splits dest!: spec [of _ sc])

text \<open>Case analysis of the two sequencing helpers.\<close>

lemma after_skip_Matched:
  "after_skip opts sc k = Matched body sc' \<Longrightarrow>
   \<exists>sc1. nextUntilChar opts sc = Inr sc1 \<and> k sc1 = Matched body sc'"
  by (auto simp: after_skip_def split: sum.splits)

lemma after_skip_NotMatched:
  "after_skip opts sc k = NotMatched sc' \<Longrightarrow>
   \<exists>sc1. nextUntilChar opts sc = Inr sc1 \<and> k sc1 = NotMatched sc'"
  by (auto simp: after_skip_def split: sum.splits)

lemma after_skip_OutOfFuel:
  "after_skip opts sc k = OutOfFuel \<Longrightarrow>
   \<exists>sc1. nextUntilChar opts sc = Inr sc1 \<and> k sc1 = OutOfFuel"
  by (auto simp: after_skip_def split: sum.splits)

lemma on_result_Matched:
  "on_result r ok ko = Matched body sc' \<Longrightarrow>
   (\<exists>b sc1. r = Matched b sc1 \<and> ok b sc1 = Matched body sc') \<or>
   (\<exists>sc1. r = NotMatched sc1 \<and> ko sc1 = Matched body sc')"
  by (auto simp: on_result_def split: result.splits)

lemma on_result_NotMatched:
  "on_result r ok ko = NotMatched sc' \<Longrightarrow>
   (\<exists>b sc1. r = Matched b sc1 \<and> ok b sc1 = NotMatched sc') \<or>
   (\<exists>sc1. r = NotMatched sc1 \<and> ko sc1 = NotMatched sc')"
  by (auto simp: on_result_def split: result.splits)

lemma on_result_OutOfFuel:
  "on_result r ok ko = OutOfFuel \<Longrightarrow>
   r = OutOfFuel \<or>
   (\<exists>b sc1. r = Matched b sc1 \<and> ok b sc1 = OutOfFuel) \<or>
   (\<exists>sc1. r = NotMatched sc1 \<and> ko sc1 = OutOfFuel)"
  by (auto simp: on_result_def split: result.splits)

subsection \<open>The literal matcher\<close>

lemma character_Matched:
  assumes "character str sc = Matched u sc'" and "str \<noteq> []"
  shows "lt_sc sc sc'"
proof -
  from assms(2) obtain a r where "str = a # r" by (cases str) auto
  with assms(1) show ?thesis
    by (auto simp: character_def le_sc_def lt_sc_def next_n_def
          dest!: after_skip_Matched nextUntilChar_le split: if_splits)
qed

lemma character_Matched_le: "character str sc = Matched u sc' \<Longrightarrow> le_sc sc sc'"
  by (auto simp: character_def le_sc_def next_n_def
        dest!: after_skip_Matched nextUntilChar_le split: if_splits)

lemma character_NotMatched: "character str sc = NotMatched sc' \<Longrightarrow> le_sc sc sc'"
  by (auto simp: character_def dest!: after_skip_NotMatched after_skip_Matched nextUntilChar_le
        split: if_splits)

lemma character_fuel [simp]: "character str sc \<noteq> OutOfFuel"
  by (auto simp: character_def after_skip_def split: sum.splits)


subsection \<open>The loops of the recognizers\<close>

lemma collect_le: "collect cls sc acc = (acc', sc') \<Longrightarrow> le_sc sc sc'"
proof (induction cls sc acc rule: collect.induct)
  case (1 cls sc acc)
  show ?case
  proof (cases "test cls (char sc 0) \<and> \<not> eof sc")
    case True
    with "1.prems" have "collect cls (next1 sc) (acc @ [char sc 0]) = (acc', sc')"
      by (subst (asm) collect.simps) simp
    with "1.IH" True have "le_sc (next1 sc) sc'" by blast
    then show ?thesis by (auto simp: le_sc_def next_n_def)
  next
    case False
    with "1.prems" show ?thesis by (subst (asm) collect.simps) auto
  qed
qed

lemma collect_grows:
  "collect cls sc acc = (acc', sc') \<Longrightarrow>
   length acc \<le> length acc' \<and> (length acc < length acc' \<longrightarrow> lt_sc sc sc')"
proof (induction cls sc acc rule: collect.induct)
  case (1 cls sc acc)
  show ?case
  proof (cases "test cls (char sc 0) \<and> \<not> eof sc")
    case True
    with "1.prems" have *: "collect cls (next1 sc) (acc @ [char sc 0]) = (acc', sc')"
      by (subst (asm) collect.simps) simp
    with "1.IH" True have "length (acc @ [char sc 0]) \<le> length acc'" by blast
    moreover from * have "le_sc (next1 sc) sc'" by (rule collect_le)
    ultimately show ?thesis by (auto simp: le_sc_def lt_sc_def next_n_def)
  next
    case False
    with "1.prems" show ?thesis by (subst (asm) collect.simps) auto
  qed
qed

lemma BareKey_loop_le: "BareKey_loop sc acc = (acc', sc') \<Longrightarrow> le_sc sc sc'"
proof (induction sc acc rule: BareKey_loop.induct)
  case (1 sc acc)
  show ?case
  proof (cases "char sc 0 \<noteq> [] \<and> test BARE_KEY (char sc 0)")
    case True
    with "1.prems" have "BareKey_loop (next1 sc) (acc @ [char sc 0]) = (acc', sc')"
      by (subst (asm) BareKey_loop.simps) simp
    with "1.IH" True have "le_sc (next1 sc) sc'" by blast
    then show ?thesis by (auto simp: le_sc_def next_n_def)
  next
    case False
    with "1.prems" show ?thesis by (subst (asm) BareKey_loop.simps) auto
  qed
qed

lemma BareKey_frame: "frame BareKey"
proof (rule frameI)
  fix sc body sc'
  assume "BareKey sc = Matched body sc'"
  then obtain sc1 acc where a: "le_sc sc sc1" "char sc1 0 \<noteq> []" "test BARE_KEY (char sc1 0)"
      and b: "BareKey_loop sc1 [] = (acc, sc')"
    by (auto simp: BareKey_def dest!: after_skip_Matched nextUntilChar_le split: if_splits prod.splits)
  from a b have "BareKey_loop (next1 sc1) [char sc1 0] = (acc, sc')"
    by (subst (asm) BareKey_loop.simps) simp
  then have "le_sc (next1 sc1) sc'" by (rule BareKey_loop_le)
  with a show "lt_sc sc sc'" by (auto simp: le_sc_def lt_sc_def next_n_def)
next
  fix sc sc'
  assume "BareKey sc = NotMatched sc'"
  then show "le_sc sc sc'"
    by (auto simp: BareKey_def dest!: after_skip_NotMatched nextUntilChar_le split: if_splits prod.splits)
qed

lemma BareKey_fuel [simp]: "BareKey sc \<noteq> OutOfFuel"
  by (auto simp: BareKey_def after_skip_def split: sum.splits prod.splits)

lemma BasicString_loop_le:
  "BasicString_loop sc acc = Matched body sc' \<Longrightarrow> lt_sc sc sc'"
proof (induction sc acc rule: BasicString_loop.induct)
  case (1 sc acc)
  show ?case
  proof (cases "char sc 0 \<noteq> [34] \<and> \<not> eof sc")
    case True
    note guard = this
    show ?thesis
    proof (cases "EscapeSequence sc")
      case (Matched b sc1)
      with guard "1.prems" have "char sc 0 \<noteq> [10]" "BasicString_loop sc1 (acc @ [b]) = Matched body sc'"
        by (subst (asm) BasicString_loop.simps, simp split: if_splits)+
      with "1.IH"(1) guard Matched have "lt_sc sc1 sc'" by blast
      with EscapeSequence_Matched [OF Matched] show ?thesis by (auto simp: lt_sc_def)
    next
      case (NotMatched sc1)
      with guard "1.prems" have "char sc 0 \<noteq> [10]"
          "BasicString_loop (next1 sc1) (acc @ [char sc1 0]) = Matched body sc'"
        by (subst (asm) BasicString_loop.simps, simp split: if_splits)+
      with "1.IH"(2) guard NotMatched have "lt_sc (next1 sc1) sc'" by blast
      with EscapeSequence_NotMatched [OF NotMatched] show ?thesis
        by (auto simp: lt_sc_def next_n_def)
    next
      case (Throw e sc1)
      with guard "1.prems" show ?thesis
        by (subst (asm) BasicString_loop.simps) (simp split: if_splits)
    next
      case OutOfFuel
      then show ?thesis by simp
    qed
  next
    case False
    with "1.prems" show ?thesis
      by (subst (asm) BasicString_loop.simps) (auto split: if_splits)
  qed
qed

lemma BasicString_loop_not:
  "BasicString_loop sc acc \<noteq> NotMatched sc'" "BasicString_loop sc acc \<noteq> OutOfFuel"
proof (induction sc acc rule: BasicString_loop.induct)
  case (1 sc acc)
  {
    case 1
    show ?case
      by (subst BasicString_loop.simps) (use "1.IH" in \<open>auto split: result.splits\<close>)
  next
    case 2
    show ?case
      by (subst BasicString_loop.simps) (use "1.IH" in \<open>auto split: result.splits\<close>)
  }
qed


lemma BasicString_frame: "frame BasicString"
proof (rule frameI)
  fix sc body sc'
  assume "BasicString sc = Matched body sc'"
  then obtain sc1 where "le_sc sc sc1" "BasicString_loop (next1 sc1) [] = Matched body sc'"
    by (auto simp: BasicString_def dest!: after_skip_Matched nextUntilChar_le split: if_splits)
  with BasicString_loop_le [of "next1 sc1" "[]" body sc'] show "lt_sc sc sc'"
    by (auto simp: le_sc_def lt_sc_def next_n_def)
next
  fix sc sc'
  assume "BasicString sc = NotMatched sc'"
  then show "le_sc sc sc'"
    by (auto simp: BasicString_def BasicString_loop_not
          dest!: after_skip_NotMatched nextUntilChar_le split: if_splits)
qed

lemma BasicString_fuel [simp]: "BasicString sc \<noteq> OutOfFuel"
  by (auto simp: BasicString_def after_skip_def BasicString_loop_not split: sum.splits)

lemma LiteralString_loop_le:
  "LiteralString_loop sc acc = Matched body sc' \<Longrightarrow> lt_sc sc sc'"
proof (induction sc acc rule: LiteralString_loop.induct)
  case (1 sc acc)
  show ?case
  proof (cases "char sc 0 \<noteq> [39] \<and> \<not> eof sc")
    case True
    with "1.prems" have "char sc 0 \<noteq> [10]"
        "LiteralString_loop (next1 sc) (acc @ [char sc 0]) = Matched body sc'"
      by (subst (asm) LiteralString_loop.simps, simp split: if_splits)+
    with "1.IH" True have "lt_sc (next1 sc) sc'" by blast
    then show ?thesis by (auto simp: lt_sc_def next_n_def)
  next
    case False
    with "1.prems" show ?thesis
      by (subst (asm) LiteralString_loop.simps) (auto split: if_splits)
  qed
qed

lemma LiteralString_loop_not:
  "LiteralString_loop sc acc \<noteq> NotMatched sc'" "LiteralString_loop sc acc \<noteq> OutOfFuel"
proof (induction sc acc rule: LiteralString_loop.induct)
  case (1 sc acc)
  {
    case 1
    show ?case by (subst LiteralString_loop.simps) (use "1.IH" in auto)
  next
    case 2
    show ?case by (subst LiteralString_loop.simps) (use "1.IH" in auto)
  }
qed

lemma LiteralString_frame: "frame LiteralString"
proof (rule frameI)
  fix sc body sc'
  assume "LiteralString sc = Matched body sc'"
  then obtain sc1 where "le_sc sc sc1" "LiteralString_loop (next1 sc1) [] = Matched body sc'"
    by (auto simp: LiteralString_def dest!: after_skip_Matched nextUntilChar_le split: if_splits)
  with LiteralString_loop_le [of "next1 sc1" "[]" body sc'] show "lt_sc sc sc'"
    by (auto simp: le_sc_def lt_sc_def next_n_def)
next
  fix sc sc'
  assume "LiteralString sc = NotMatched sc'"
  then show "le_sc sc sc'"
    by (auto simp: LiteralString_def LiteralString_loop_not
          dest!: after_skip_NotMatched nextUntilChar_le split: if_splits)
qed

lemma LiteralString_fuel [simp]: "LiteralString sc \<noteq> OutOfFuel"
  by (auto simp: LiteralString_def after_skip_def LiteralString_loop_not split: sum.splits)


lemma trim_first_newline_le [simp]: "le_sc sc (trim_first_newline sc)"
  by (simp add: trim_first_newline_def)

lemma MultilineBasicString_loop_le:
  "MultilineBasicString_loop sc acc = Matched body sc' \<Longrightarrow> lt_sc sc sc'"
proof (induction sc acc rule: MultilineBasicString_loop.induct)
  case (1 sc acc)
  show ?case
  proof (cases "slice sc 0 3 \<noteq> [34, 34, 34] \<and> \<not> eof sc")
    case True
    note guard = this
    consider (a) "slice sc 0 2 = [92, 10]"
      | (b) "slice sc 0 2 \<noteq> [92, 10]" "slice sc 0 3 = [92, 13, 10]"
      | (c) "slice sc 0 2 \<noteq> [92, 10]" "slice sc 0 3 \<noteq> [92, 13, 10]"
      by blast
    then show ?thesis
    proof cases
      case a
      with guard "1.prems" obtain sc1 where s: "nextUntilChar no_comment_options (next1 sc) = Inr sc1"
          and "MultilineBasicString_loop sc1 acc = Matched body sc'"
        by (subst (asm) MultilineBasicString_loop.simps) (auto dest!: after_skip_Matched)
      with "1.IH"(1) guard a have "lt_sc sc1 sc'" by blast
      with nextUntilChar_le [OF s] show ?thesis by (auto simp: le_sc_def lt_sc_def next_n_def)
    next
      case b
      with guard "1.prems" obtain sc1 where s: "nextUntilChar no_comment_options (next1 sc) = Inr sc1"
          and "MultilineBasicString_loop sc1 acc = Matched body sc'"
        by (subst (asm) MultilineBasicString_loop.simps) (auto dest!: after_skip_Matched)
      with "1.IH"(2) guard b have "lt_sc sc1 sc'" by blast
      with nextUntilChar_le [OF s] show ?thesis by (auto simp: le_sc_def lt_sc_def next_n_def)
    next
      case c
      show ?thesis
      proof (cases "EscapeSequence sc")
        case (Matched b sc1)
        with guard c "1.prems" have "MultilineBasicString_loop sc1 (acc @ [b]) = Matched body sc'"
          by (subst (asm) MultilineBasicString_loop.simps) simp
        with "1.IH"(3) guard c Matched have "lt_sc sc1 sc'" by blast
        with EscapeSequence_Matched [OF Matched] show ?thesis by (auto simp: lt_sc_def)
      next
        case (NotMatched sc1)
        with guard c "1.prems" have
          "MultilineBasicString_loop (next1 sc1) (acc @ [char sc1 0]) = Matched body sc'"
          by (subst (asm) MultilineBasicString_loop.simps) simp
        with "1.IH"(4) guard c NotMatched have "lt_sc (next1 sc1) sc'" by blast
        with EscapeSequence_NotMatched [OF NotMatched] show ?thesis
          by (auto simp: lt_sc_def next_n_def)
      next
        case (Throw e sc1)
        with guard c "1.prems" show ?thesis
          by (subst (asm) MultilineBasicString_loop.simps) simp
      next
        case OutOfFuel
        then show ?thesis by simp
      qed
    qed
  next
    case False
    with "1.prems" show ?thesis
      by (subst (asm) MultilineBasicString_loop.simps)
         (auto simp: lt_sc_def next_n_def split: if_splits)
  qed
qed

lemma MultilineBasicString_loop_not:
  "MultilineBasicString_loop sc acc \<noteq> NotMatched sc' \<and>
   MultilineBasicString_loop sc acc \<noteq> OutOfFuel"
proof (induction sc acc rule: MultilineBasicString_loop.induct)
  case (1 sc acc)
  show ?case
  proof (cases "slice sc 0 3 \<noteq> [34, 34, 34] \<and> \<not> eof sc")
    case True
    note guard = this
    consider (a) "slice sc 0 2 = [92, 10]"
      | (b) "slice sc 0 2 \<noteq> [92, 10]" "slice sc 0 3 = [92, 13, 10]"
      | (c) "slice sc 0 2 \<noteq> [92, 10]" "slice sc 0 3 \<noteq> [92, 13, 10]"
      by blast
    then show ?thesis
    proof cases
      case a
      with guard "1.IH"(1) show ?thesis
        by (subst (1 2) MultilineBasicString_loop.simps)
           (auto simp: after_skip_def split: sum.splits)
    next
      case b
      with guard "1.IH"(2) show ?thesis
        by (subst (1 2) MultilineBasicString_loop.simps)
           (auto simp: after_skip_def split: sum.splits)
    next
      case c
      show ?thesis
      proof (cases "EscapeSequence sc")
        case (Matched b sc1)
        with guard c "1.IH"(3) show ?thesis
          by (subst (1 2) MultilineBasicString_loop.simps) simp
      next
        case (NotMatched sc1)
        with guard c "1.IH"(4) show ?thesis
          by (subst (1 2) MultilineBasicString_loop.simps) simp
      next
        case (Throw e sc1)
        with guard c show ?thesis
          by (subst (1 2) MultilineBasicString_loop.simps) simp
      next
        case OutOfFuel
        then show ?thesis by simp
      qed
    qed
  next
    case False
    then show ?thesis
      by (subst (1 2) MultilineBasicString_loop.simps) auto
  qed
qed

lemma MultilineBasicString_frame: "frame MultilineBasicString"
proof (rule frameI)
  fix sc body sc'
  assume "MultilineBasicString sc = Matched body sc'"
  then obtain sc1 where "le_sc sc sc1"
      "MultilineBasicString_loop (trim_first_newline (next_n 3 sc1)) [] = Matched body sc'"
    by (auto simp: MultilineBasicString_def dest!: after_skip_Matched nextUntilChar_le
          split: if_splits)
  with MultilineBasicString_loop_le [of "trim_first_newline (next_n 3 sc1)" "[]" body sc']
    trim_first_newline_le [of "next_n 3 sc1"]
  show "lt_sc sc sc'"
    by (auto simp: le_sc_def lt_sc_def next_n_def)
next
  fix sc sc'
  assume "MultilineBasicString sc = NotMatched sc'"
  then show "le_sc sc sc'"
    by (auto simp: MultilineBasicString_def MultilineBasicString_loop_not
          dest!: after_skip_NotMatched nextUntilChar_le split: if_splits)
qed

lemma MultilineBasicString_fuel [simp]: "MultilineBasicString sc \<noteq> OutOfFuel"
  by (auto simp: MultilineBasicString_def after_skip_def MultilineBasicString_loop_not
        split: sum.splits)

lemma MultilineLiteralString_loop_le:
  "MultilineLiteralString_loop sc acc = Matched body sc' \<Longrightarrow> lt_sc sc sc'"
proof (induction sc acc rule: MultilineLiteralString_loop.induct)
  case (1 sc acc)
  show ?case
  proof (cases "slice sc 0 3 \<noteq> [39, 39, 39] \<and> \<not> eof sc")
    case True
    with "1.prems" have
      "MultilineLiteralString_loop (next1 sc) (acc @ [char sc 0]) = Matched body sc'"
      by (subst (asm) MultilineLiteralString_loop.simps) simp
    with "1.IH" True have "lt_sc (next1 sc) sc'" by blast
    then show ?thesis by (auto simp: lt_sc_def next_n_def)
  next
    case False
    with "1.prems" show ?thesis
      by (subst (asm) MultilineLiteralString_loop.simps)
         (auto simp: lt_sc_def next_n_def split: if_splits)
  qed
qed

lemma MultilineLiteralString_loop_not:
  "MultilineLiteralString_loop sc acc \<noteq> NotMatched sc'"
  "MultilineLiteralString_loop sc acc \<noteq> OutOfFuel"
proof (induction sc acc rule: MultilineLiteralString_loop.induct)
  case (1 sc acc)
  {
    case 1
    show ?case by (subst MultilineLiteralString_loop.simps) (use "1.IH" in auto)
  next
    case 2
    show ?case by (subst MultilineLiteralString_loop.simps) (use "1.IH" in auto)
  }
qed

lemma MultilineLiteralString_frame: "frame MultilineLiteralString"
proof (rule frameI)
  fix sc body sc'
  assume "MultilineLiteralString sc = Matched body sc'"
  then obtain sc1 where "le_sc sc sc1"
      "MultilineLiteralString_loop (trim_first_newline (next_n 3 sc1)) [] = Matched body sc'"
    by (auto simp: MultilineLiteralString_def dest!: after_skip_Matched nextUntilChar_le
          split: if_splits)
  with MultilineLiteralString_loop_le [of "trim_first_newline (next_n 3 sc1)" "[]" body sc']
    trim_first_newline_le [of "next_n 3 sc1"]
  show "lt_sc sc sc'"
    by (auto simp: le_sc_def lt_sc_def next_n_def)
next
  fix sc sc'
  assume "MultilineLiteralString sc = NotMatched sc'"
  then show "le_sc sc sc'"
    by (auto simp: MultilineLiteralString_def MultilineLiteralString_loop_not
          dest!: after_skip_NotMatched nextUntilChar_le split: if_splits)
qed

lemma MultilineLiteralString_fuel [simp]: "MultilineLiteralString sc \<noteq> OutOfFuel"
  by (auto simp: MultilineLiteralString_def after_skip_def MultilineLiteralString_loop_not
        split: sum.splits)


subsection \<open>Symbols, numbers, dates\<close>

lemma symbolPairs_nonempty: "p \<in> set symbolPairs \<Longrightarrow> 3 \<le> length (fst p)"
  by (auto simp: symbolPairs_def js_def)

lemma Symbols_frame: "frame Symbols"
proof (rule frameI)
  fix sc body sc'
  assume "Symbols sc = Matched body sc'"
  then obtain sc1 found where "le_sc sc sc1"
      and f: "find (\<lambda>p. slice sc1 0 (length (fst p)) = fst p) symbolPairs = Some found"
      and "sc' = next_n (length (fst found)) sc1"
    by (auto simp: Symbols_def dest!: after_skip_Matched nextUntilChar_le split: option.splits)
  moreover from f have "found \<in> set symbolPairs"
    by (auto simp: find_Some_iff)
  then have "3 \<le> length (fst found)" by (rule symbolPairs_nonempty)
  ultimately show "lt_sc sc sc'" by (auto simp: le_sc_def lt_sc_def next_n_def)
next
  fix sc sc'
  assume "Symbols sc = NotMatched sc'"
  then show "le_sc sc sc'"
    by (auto simp: Symbols_def dest!: after_skip_NotMatched nextUntilChar_le split: option.splits)
qed

lemma Symbols_fuel [simp]: "Symbols sc \<noteq> OutOfFuel"
  by (auto simp: Symbols_def after_skip_def split: sum.splits option.splits)

lemma take_sign_le: "take_sign sc = (acc, sc') \<Longrightarrow> le_sc sc sc' \<and> (acc \<noteq> [] \<longrightarrow> lt_sc sc sc')"
  by (auto simp: take_sign_def le_sc_def lt_sc_def next_n_def split: if_splits)

lemma Integer_frame: "frame Integer"
proof (rule frameI)
  fix sc body sc'
  assume "Integer sc = Matched body sc'"
  then obtain sc1 where le: "le_sc sc sc1"
      and m: "(let first2 = slice sc1 0 2
       in if length first2 = 2 \<and> re_radix first2 then
            (case collect re_hex_us (next_n 2 sc1) [first2] of
               (acc, sc2) \<Rightarrow>
                 if length acc = 1 then NotMatched sc2 else Matched (VString (concat acc)) sc2)
          else
            (case take_sign sc1 of
               (acc0, sc2) \<Rightarrow>
                 (case collect re_digit_us sc2 acc0 of
                    (acc, sc3) \<Rightarrow>
                      if length acc = 0 \<or> (length acc = 1 \<and> test re_sign (acc ! 0))
                      then NotMatched sc3
                      else Matched (VNumber (parseInt (concat (filter (\<lambda>char. char \<noteq> js ''_'') acc)))) sc3)))
        = Matched body sc'"
    by (auto simp: Integer_def dest!: after_skip_Matched nextUntilChar_le)
  show "lt_sc sc sc'"
  proof (cases "length (slice sc1 0 2) = 2 \<and> re_radix (slice sc1 0 2)")
    case True
    with m obtain acc where "collect re_hex_us (next_n 2 sc1) [slice sc1 0 2] = (acc, sc')"
      by (auto simp: Let_def split: prod.splits if_splits)
    then have "le_sc (next_n 2 sc1) sc'" by (rule collect_le)
    with le show ?thesis by (auto simp: le_sc_def lt_sc_def next_n_def)
  next
    case False
    with m obtain acc0 sc2 acc where ts: "take_sign sc1 = (acc0, sc2)"
        and c: "collect re_digit_us sc2 acc0 = (acc, sc')" and "length acc \<noteq> 0"
      by (auto simp: Let_def split: prod.splits if_splits)
    with collect_grows [OF c] take_sign_le [OF ts] collect_le [OF c] le show ?thesis
      by (cases "acc0 = []") (auto simp: le_sc_def lt_sc_def)
  qed
next
  fix sc sc'
  assume "Integer sc = NotMatched sc'"
  then show "le_sc sc sc'"
    by (auto simp: Integer_def Let_def le_sc_def next_n_def
          dest!: after_skip_NotMatched nextUntilChar_le collect_le take_sign_le
          split: if_splits prod.splits)
qed

lemma Integer_fuel [simp]: "Integer sc \<noteq> OutOfFuel"
  by (auto simp: Integer_def after_skip_def Let_def split: sum.splits prod.splits)

lemma Float_frame: "frame Float"
proof (rule frameI)
  fix sc body sc'
  assume "Float sc = Matched body sc'"
  then obtain sc1 acc0 sc2 acc where le: "le_sc sc sc1"
      and ts: "take_sign sc1 = (acc0, sc2)"
      and c: "collect FLOAT sc2 acc0 = (acc, sc')" and "length acc \<noteq> 0"
    by (auto simp: Float_def Let_def dest!: after_skip_Matched nextUntilChar_le
          split: if_splits prod.splits)
  with collect_grows [OF c] take_sign_le [OF ts] collect_le [OF c] show "lt_sc sc sc'"
    by (cases "acc0 = []") (auto simp: le_sc_def lt_sc_def)
next
  fix sc sc'
  assume "Float sc = NotMatched sc'"
  then show "le_sc sc sc'"
    by (auto simp: Float_def Let_def le_sc_def
          dest!: after_skip_NotMatched nextUntilChar_le collect_le take_sign_le
          split: if_splits prod.splits)
qed

lemma Float_fuel [simp]: "Float sc \<noteq> OutOfFuel"
  by (auto simp: Float_def after_skip_def Let_def split: sum.splits prod.splits)

lemma DateTime_frame: "frame (DateTime dateValid)"
proof (rule frameI)
  fix sc body sc'
  assume "DateTime dateValid sc = Matched body sc'"
  then show "lt_sc sc sc'"
    by (auto simp: DateTime_def Let_def le_sc_def lt_sc_def next_n_def
          dest!: after_skip_Matched nextUntilChar_le collect_le split: if_splits prod.splits)
next
  fix sc sc'
  assume "DateTime dateValid sc = NotMatched sc'"
  then show "le_sc sc sc'"
    by (auto simp: DateTime_def Let_def
          dest!: after_skip_NotMatched nextUntilChar_le split: if_splits prod.splits)
qed

lemma DateTime_fuel [simp]: "DateTime dateValid sc \<noteq> OutOfFuel"
  by (auto simp: DateTime_def after_skip_def Let_def split: sum.splits prod.splits)

lemma LocalTime_frame: "frame LocalTime"
proof (rule frameI)
  fix sc body sc'
  assume "LocalTime sc = Matched body sc'"
  then show "lt_sc sc sc'"
    by (auto simp: LocalTime_def Let_def le_sc_def lt_sc_def next_n_def
          dest!: after_skip_Matched nextUntilChar_le collect_le split: if_splits prod.splits)
next
  fix sc sc'
  assume "LocalTime sc = NotMatched sc'"
  then show "le_sc sc sc'"
    by (auto simp: LocalTime_def Let_def
          dest!: after_skip_NotMatched nextUntilChar_le split: if_splits prod.splits)
qed

lemma LocalTime_fuel [simp]: "LocalTime sc \<noteq> OutOfFuel"
  by (auto simp: LocalTime_def after_skip_def Let_def split: sum.splits prod.splits)


subsection \<open>Combinators\<close>

lemma as_value_frame: "frame p \<Longrightarrow> frame (as_value p)"
  by (rule frameI)
     (auto simp: as_value_def dest!: on_result_Matched on_result_NotMatched
        dest: frame_Matched frame_NotMatched)

lemma as_value_fuel: "p sc \<noteq> OutOfFuel \<Longrightarrow> as_value p sc \<noteq> OutOfFuel"
  by (auto simp: as_value_def on_result_def split: result.splits)

lemma Or_frame_at:
  "(\<And>p sc1. p \<in> set ps \<Longrightarrow> le_sc sc sc1 \<Longrightarrow> frame_at p sc1) \<Longrightarrow> frame_at (Or ps) sc"
proof (induction ps arbitrary: sc)
  case Nil
  then show ?case by (simp add: frame_at_def)
next
  case (Cons p ps)
  have p: "frame_at p sc" using Cons.prems by simp
  show ?case
  proof (cases "p sc")
    case (Matched b sc1)
    with p show ?thesis by (simp add: frame_at_def on_result_def)
  next
    case (NotMatched sc1)
    with p have le: "le_sc sc sc1" by (simp add: frame_at_def)
    have "frame_at (Or ps) sc1"
      by (rule Cons.IH) (use Cons.prems le in \<open>auto intro: le_sc_trans\<close>)
    with le NotMatched show ?thesis
      by (auto simp: frame_at_def on_result_def split: result.splits
            intro: le_lt_sc le_sc_trans)
  next
    case (Throw e sc1)
    then show ?thesis by (simp add: frame_at_def on_result_def)
  next
    case OutOfFuel
    then show ?thesis by (simp add: frame_at_def on_result_def)
  qed
qed

lemma Or_frame: "(\<And>p. p \<in> set ps \<Longrightarrow> frame p) \<Longrightarrow> frame (Or ps)"
  unfolding frame_def by (blast intro: Or_frame_at)

lemma Or_fuel:
  "(\<And>p sc1. p \<in> set ps \<Longrightarrow> le_sc sc sc1 \<Longrightarrow> frame_at p sc1 \<and> p sc1 \<noteq> OutOfFuel) \<Longrightarrow>
   Or ps sc \<noteq> OutOfFuel"
proof (induction ps arbitrary: sc)
  case Nil
  then show ?case by simp
next
  case (Cons p ps)
  have p: "frame_at p sc" "p sc \<noteq> OutOfFuel" using Cons.prems by simp_all
  show ?case
  proof (cases "p sc")
    case (NotMatched sc1)
    with p have le: "le_sc sc sc1" by (simp add: frame_at_def)
    have "Or ps sc1 \<noteq> OutOfFuel"
      by (rule Cons.IH) (use Cons.prems le in \<open>auto intro: le_sc_trans\<close>)
    with NotMatched show ?thesis by (simp add: on_result_def)
  qed (use p in \<open>simp_all add: on_result_def\<close>)
qed

text \<open>The remaining input, which bounds the rounds of every loop.\<close>

definition remaining :: "Scanner \<Rightarrow> nat" where
  "remaining sc = length (source sc) - position sc"

lemma remaining_le: "le_sc sc sc' \<Longrightarrow> remaining sc' \<le> remaining sc"
  by (auto simp: le_sc_def remaining_def)

lemma remaining_lt: "lt_sc sc sc' \<Longrightarrow> \<not> eof sc \<Longrightarrow> remaining sc' < remaining sc"
  by (auto simp: lt_sc_def remaining_def eof_def)

lemma Join_loop_frame:
  "frame p \<Longrightarrow> Join_loop n p sep out sc = Matched body sc' \<Longrightarrow> le_sc sc sc'"
proof (induction n arbitrary: out sc)
  case 0
  then show ?case by simp
next
  case (Suc n)
  show ?case
  proof (cases "eof sc")
    case True
    with Suc.prems show ?thesis by simp
  next
    case False
    with Suc.prems(2) consider
      (stop) sc1 where "character sep sc = NotMatched sc1" "sc' = sc1"
      | (go) u sc1 b sc2 where "character sep sc = Matched u sc1" "p sc1 = Matched b sc2"
          "Join_loop n p sep (out @ [b]) sc2 = Matched body sc'"
      by (auto dest!: on_result_Matched)
    then show ?thesis
    proof cases
      case stop
      then show ?thesis by (auto dest: character_NotMatched)
    next
      case go
      from go(1) have "le_sc sc sc1" by (rule character_Matched_le)
      moreover from go(2) Suc.prems(1) have "lt_sc sc1 sc2" by (rule frame_Matched [rotated])
      moreover from go(3) Suc.IH Suc.prems(1) have "le_sc sc2 sc'" by blast
      ultimately show ?thesis by (auto simp: le_sc_def lt_sc_def)
    qed
  qed
qed

lemma Join_loop_not: "Join_loop n p sep out sc \<noteq> NotMatched sc'"
proof (induction n arbitrary: out sc)
  case 0
  then show ?case by simp
next
  case (Suc n)
  then show ?case by (auto simp: on_result_def split: result.splits)
qed

lemma Join_frame: "frame p \<Longrightarrow> frame (Join n p sep)"
proof (rule frameI)
  fix sc body sc'
  assume "frame p" "Join n p sep sc = Matched body sc'"
  then show "lt_sc sc sc'"
    by (auto simp: Join_def Join_loop_not dest!: on_result_Matched
          dest: frame_Matched Join_loop_frame intro: lt_le_sc_trans)
next
  fix sc sc'
  assume "frame p" "Join n p sep sc = NotMatched sc'"
  then show "le_sc sc sc'"
    by (auto simp: Join_def Join_loop_not dest!: on_result_NotMatched dest: frame_NotMatched)
qed


lemma Kv_frame: "frame k \<Longrightarrow> frame v \<Longrightarrow> frame (Kv k sep v)"
proof (rule frameI)
  fix sc body sc'
  assume k: "frame k" and v: "frame v" and "Kv k sep v sc = Matched body sc'"
  then obtain key sc1 u sc2 val where "k sc = Matched key sc1"
      "character sep sc1 = Matched u sc2" "v sc2 = Matched val sc'"
    by (auto simp: Kv_def dest!: on_result_Matched)
  with k v have "lt_sc sc sc1" "le_sc sc1 sc2" "lt_sc sc2 sc'"
    by (auto dest: frame_Matched character_Matched_le)
  then show "lt_sc sc sc'" by (auto simp: le_sc_def lt_sc_def)
next
  fix sc sc'
  assume "frame k" "Kv k sep v sc = NotMatched sc'"
  then show "le_sc sc sc'"
    by (auto simp: Kv_def dest!: on_result_NotMatched dest: frame_NotMatched)
qed

lemma Merge_frame: "frame p \<Longrightarrow> frame (Merge p)"
  by (rule frameI)
     (auto simp: Merge_def dest!: on_result_Matched on_result_NotMatched
        dest: frame_Matched frame_NotMatched)

lemma Repeat_loop_le:
  "frame p \<Longrightarrow> Repeat_loop n p body sc = Matched b sc' \<or> Repeat_loop n p body sc = NotMatched sc'
   \<Longrightarrow> le_sc sc sc'"
proof (induction n arbitrary: body sc)
  case 0
  then show ?case by simp
next
  case (Suc n)
  show ?case
  proof (cases "eof sc")
    case True
    with Suc.prems show ?thesis by (auto split: if_splits)
  next
    case False
    show ?thesis
    proof (cases "p sc")
      case (Matched x sc1)
      with False Suc.prems(2) obtain sc2 where s: "nextUntilChar default_options sc1 = Inr sc2"
          and "Repeat_loop n p (body @ [x]) sc2 = Matched b sc'
               \<or> Repeat_loop n p (body @ [x]) sc2 = NotMatched sc'"
        by (auto simp: on_result_def dest!: after_skip_Matched after_skip_NotMatched)
      with Suc.IH Suc.prems(1) have "le_sc sc2 sc'" by blast
      with nextUntilChar_le [OF s] frame_Matched [OF Suc.prems(1) Matched] show ?thesis
        by (auto simp: le_sc_def lt_sc_def)
    next
      case (NotMatched sc1)
      with False Suc.prems(2) have "sc' = sc1"
        by (auto simp: on_result_def split: if_splits)
      with frame_NotMatched [OF Suc.prems(1) NotMatched] show ?thesis by simp
    next
      case (Throw e sc1)
      with False Suc.prems(2) show ?thesis by (simp add: on_result_def)
    next
      case OutOfFuel
      with False Suc.prems(2) show ?thesis by (simp add: on_result_def)
    qed
  qed
qed

lemma Repeat_frame: "frame p \<Longrightarrow> frame (Repeat n p)"
proof (rule frameI)
  fix sc body sc'
  assume p: "frame p" and m: "Repeat n p sc = Matched body sc'"
  then obtain k where n: "n = Suc k" by (cases n) (auto simp: Repeat_def)
  from m n have "\<not> eof sc" by (auto simp: Repeat_def split: if_splits)
  with m n obtain x sc1 sc2 where x: "p sc = Matched x sc1"
      and s: "nextUntilChar default_options sc1 = Inr sc2"
      and r: "Repeat_loop k p [x] sc2 = Matched body sc'"
    by (auto simp: Repeat_def dest!: on_result_Matched after_skip_Matched)
  from r p have "le_sc sc2 sc'" by (blast intro: Repeat_loop_le)
  with nextUntilChar_le [OF s] frame_Matched [OF p x] show "lt_sc sc sc'"
    by (auto simp: le_sc_def lt_sc_def)
next
  fix sc sc'
  assume "frame p" "Repeat n p sc = NotMatched sc'"
  then show "le_sc sc sc'" by (auto simp: Repeat_def intro: Repeat_loop_le)
qed

lemma Surround_frame: "frame p \<Longrightarrow> left \<noteq> [] \<Longrightarrow> frame (Surround left p right)"
proof (rule frameI)
  fix sc body sc'
  assume p: "frame p" and l: "left \<noteq> []" and "Surround left p right sc = Matched body sc'"
  then obtain u sc1 sc2 u' where "character left sc = Matched u sc1"
      "p sc1 = Matched body sc2" "character right sc2 = Matched u' sc'"
    by (auto simp: Surround_def dest!: on_result_Matched)
  with p l have "lt_sc sc sc1" "lt_sc sc1 sc2" "le_sc sc2 sc'"
    by (auto dest: frame_Matched character_Matched_le character_Matched)
  then show "lt_sc sc sc'" by (auto simp: le_sc_def lt_sc_def)
next
  fix sc sc'
  assume "Surround left p right sc = NotMatched sc'"
  then show "le_sc sc sc'"
    by (auto simp: Surround_def dest!: on_result_NotMatched dest: character_NotMatched)
qed

subsection \<open>Grammar\<close>

lemma DottedKey_frame: "frame (DottedKey n)"
  unfolding DottedKey_def
  by (intro Join_frame Or_frame)
     (auto simp: BareKey_frame BasicString_frame LiteralString_frame)

lemma ArrayValue_close_le:
  "ArrayValue_close arr sc = Matched body sc' \<Longrightarrow> lt_sc sc sc'"
  by (auto simp: ArrayValue_close_def le_sc_def lt_sc_def next_n_def
        dest!: after_skip_Matched nextUntilChar_le split: if_splits)

lemma ArrayValue_close_not:
  "ArrayValue_close arr sc \<noteq> NotMatched sc'" "ArrayValue_close arr sc \<noteq> OutOfFuel"
  by (auto simp: ArrayValue_close_def after_skip_def split: sum.splits)

lemma ArrayValue_loop_le:
  "frame V \<Longrightarrow> ArrayValue_loop n V arr sc = Matched body sc' \<Longrightarrow> lt_sc sc sc'"
proof (induction n arbitrary: arr sc)
  case 0
  then show ?case by simp
next
  case (Suc n)
  show ?case
  proof (cases "eof sc")
    case True
    with Suc.prems show ?thesis by (auto dest: ArrayValue_close_le)
  next
    case False
    with Suc.prems(2) obtain sc1 where s1: "nextUntilChar default_options sc = Inr sc1"
        and r: "on_result (V sc1)
            (\<lambda>body sc2.
               after_skip inline_options sc2 (\<lambda>sc3.
                 if char sc3 0 = js '','' then ArrayValue_loop n V (arr @ [body]) (next1 sc3)
                 else ArrayValue_close (arr @ [body]) sc3))
            (\<lambda>sc2. ArrayValue_close arr sc2) = Matched body sc'"
      by (auto dest!: after_skip_Matched)
    from r consider
      (m) x sc2 sc3 where "V sc1 = Matched x sc2" "nextUntilChar inline_options sc2 = Inr sc3"
          "(if char sc3 0 = js '','' then ArrayValue_loop n V (arr @ [x]) (next1 sc3)
            else ArrayValue_close (arr @ [x]) sc3) = Matched body sc'"
      | (nm) sc2 where "V sc1 = NotMatched sc2" "ArrayValue_close arr sc2 = Matched body sc'"
      by (auto dest!: on_result_Matched after_skip_Matched)
    then show ?thesis
    proof cases
      case m
      from m(1) Suc.prems(1) have "lt_sc sc1 sc2" by (rule frame_Matched [rotated])
      moreover from m(3) have "le_sc sc3 sc'"
        using Suc.IH [OF Suc.prems(1), of "arr @ [x]" "next1 sc3"]
          ArrayValue_close_le [of "arr @ [x]" sc3 body sc']
        by (auto simp: le_sc_def lt_sc_def next_n_def split: if_splits)
      ultimately show ?thesis using nextUntilChar_le [OF s1] nextUntilChar_le [OF m(2)]
        by (auto simp: le_sc_def lt_sc_def)
    next
      case nm
      from nm(1) Suc.prems(1) have "le_sc sc1 sc2" by (rule frame_NotMatched [rotated])
      with ArrayValue_close_le [OF nm(2)] nextUntilChar_le [OF s1] show ?thesis
        by (auto simp: le_sc_def lt_sc_def)
    qed
  qed
qed

lemma ArrayValue_loop_not: "ArrayValue_loop n V arr sc \<noteq> NotMatched sc'"
proof (induction n arbitrary: arr sc)
  case 0
  then show ?case by simp
next
  case (Suc n)
  then show ?case
    by (auto simp: on_result_def after_skip_def ArrayValue_close_not
          split: result.splits sum.splits)
qed

lemma ArrayValue_frame: "frame V \<Longrightarrow> frame (ArrayValue n V)"
proof (rule frameI)
  fix sc body sc'
  assume "frame V" "ArrayValue n V sc = Matched body sc'"
  then show "lt_sc sc sc'"
    by (auto simp: ArrayValue_def le_sc_def lt_sc_def next_n_def
          dest!: after_skip_Matched nextUntilChar_le ArrayValue_loop_le split: if_splits)
next
  fix sc sc'
  assume "ArrayValue n V sc = NotMatched sc'"
  then show "le_sc sc sc'"
    by (auto simp: ArrayValue_def ArrayValue_loop_not
          dest!: after_skip_NotMatched nextUntilChar_le split: if_splits)
qed

lemma Pair_of_frame: "frame V \<Longrightarrow> frame (Pair_of n V)"
  unfolding Pair_of_def by (intro Kv_frame DottedKey_frame)

lemma InlineTable_frame: "frame V \<Longrightarrow> frame (InlineTable n V)"
proof (rule frameI)
  fix sc body sc'
  assume V: "frame V"
  then have S: "frame (Surround (js ''{'') (Join n (Pair_of n V) (js '','')) (js ''}''))"
    by (intro Surround_frame Join_frame Pair_of_frame) (simp_all add: js_def)
  assume "InlineTable n V sc = Matched body sc'"
  then show "lt_sc sc sc'"
    by (auto simp: InlineTable_def le_sc_def lt_sc_def next_n_def
          dest!: after_skip_Matched nextUntilChar_le on_result_Matched frame_Matched [OF S]
          split: if_splits)
next
  fix sc sc'
  assume V: "frame V"
  then have S: "frame (Surround (js ''{'') (Join n (Pair_of n V) (js '','')) (js ''}''))"
    by (intro Surround_frame Join_frame Pair_of_frame) (simp_all add: js_def)
  assume "InlineTable n V sc = NotMatched sc'"
  then show "le_sc sc sc'"
    by (auto simp: InlineTable_def le_sc_def lt_sc_def
          dest!: after_skip_NotMatched nextUntilChar_le on_result_NotMatched
            frame_NotMatched [OF S] split: if_splits)
qed

lemma Value_frame: "frame (Value dateValid n)"
proof (induction n)
  case 0
  show ?case by (rule frameI) simp_all
next
  case (Suc n)
  have "frame (Or [as_value MultilineBasicString,
         as_value MultilineLiteralString,
         as_value BasicString,
         as_value LiteralString,
         Symbols,
         DateTime dateValid,
         LocalTime,
         Float,
         Integer,
         ArrayValue n (Value dateValid n),
         InlineTable n (Value dateValid n)])"
    by (intro Or_frame)
       (auto intro!: as_value_frame MultilineBasicString_frame MultilineLiteralString_frame
          BasicString_frame LiteralString_frame Symbols_frame DateTime_frame LocalTime_frame
          Float_frame Integer_frame ArrayValue_frame InlineTable_frame Suc)
  then show ?case by (simp add: frame_def frame_at_def)
qed


lemma Pair_frame: "frame (Pair dateValid n)"
  unfolding Pair_def by (intro Pair_of_frame Value_frame)

lemma Block_frame: "frame (Block dateValid n)"
proof -
  have M: "frame (Merge (Repeat n (Pair dateValid n)))"
    by (intro Merge_frame Repeat_frame Pair_frame)
  show ?thesis
    by (rule frameI)
       (auto simp: Block_def le_sc_def lt_sc_def
          dest!: after_skip_Matched after_skip_NotMatched nextUntilChar_le
            on_result_Matched on_result_NotMatched frame_Matched [OF M] frame_NotMatched [OF M])
qed

lemma header_block_le:
  "header_block dateValid n ty header sc = Matched body sc' \<Longrightarrow> le_sc sc sc'"
  by (auto simp: header_block_def le_sc_def lt_sc_def
        dest!: after_skip_Matched nextUntilChar_le
          frame_Matched [OF Block_frame] frame_NotMatched [OF Block_frame]
        split: result.splits)

lemma header_block_not: "header_block dateValid n ty header sc \<noteq> NotMatched sc'"
  by (auto simp: header_block_def after_skip_def split: result.splits sum.splits)

lemma TableHeader_frame: "frame (TableHeader n)"
  unfolding TableHeader_def by (intro Surround_frame DottedKey_frame) (simp add: js_def)

lemma TableArrayHeader_frame: "frame (TableArrayHeader n)"
  unfolding TableArrayHeader_def by (intro Surround_frame DottedKey_frame) (simp add: js_def)

lemma Table_frame: "frame (Table dateValid n)"
  by (rule frameI)
     (auto simp: Table_def le_sc_def lt_sc_def header_block_not
        dest!: after_skip_Matched after_skip_NotMatched nextUntilChar_le
          on_result_Matched on_result_NotMatched header_block_le
          frame_Matched [OF TableHeader_frame] frame_NotMatched [OF TableHeader_frame])

lemma TableArray_frame: "frame (TableArray dateValid n)"
  by (rule frameI)
     (auto simp: TableArray_def le_sc_def lt_sc_def header_block_not
        dest!: after_skip_Matched after_skip_NotMatched nextUntilChar_le
          on_result_Matched on_result_NotMatched header_block_le
          frame_Matched [OF TableArrayHeader_frame] frame_NotMatched [OF TableArrayHeader_frame])

lemma Toml_frame: "frame (Toml dateValid n)"
proof -
  have R: "frame (Repeat n (Or [Block dateValid n, TableArray dateValid n, Table dateValid n]))"
    by (intro Repeat_frame Or_frame) (auto simp: Block_frame TableArray_frame Table_frame)
  show ?thesis
    by (rule frameI)
       (auto simp: Toml_def dest!: on_result_Matched on_result_NotMatched
          frame_Matched [OF R] frame_NotMatched [OF R] split: sum.splits)
qed

section \<open>The iteration budget is never used up\<close>

definition fuel_ok :: "nat \<Rightarrow> 'a parser \<Rightarrow> bool" where
  "fuel_ok k p = (\<forall>sc. remaining sc < k \<longrightarrow> p sc \<noteq> OutOfFuel)"

lemma fuel_okI: "(\<And>sc. remaining sc < k \<Longrightarrow> p sc \<noteq> OutOfFuel) \<Longrightarrow> fuel_ok k p"
  by (simp add: fuel_ok_def)

lemma fuel_okD: "fuel_ok k p \<Longrightarrow> remaining sc < k \<Longrightarrow> p sc \<noteq> OutOfFuel"
  by (simp add: fuel_ok_def)

lemma fuel_ok_mono: "fuel_ok k p \<Longrightarrow> j \<le> k \<Longrightarrow> fuel_ok j p"
  by (auto simp: fuel_ok_def)

lemma fuel_ok_never: "(\<And>sc. p sc \<noteq> OutOfFuel) \<Longrightarrow> fuel_ok k p"
  by (simp add: fuel_ok_def)

lemma character_remaining:
  assumes "character str sc = Matched u sc'" and "str \<noteq> []"
  shows "remaining sc' < remaining sc"
proof -
  from assms(1) obtain sc1 sc2 where a: "le_sc sc sc1" "slice sc1 0 (length str) = str"
      "le_sc (next_n (length str) sc1) sc'"
    by (auto simp: character_def dest!: after_skip_Matched nextUntilChar_le split: if_splits)
  from a(2) assms(2) have "position sc1 < length (source sc1)"
    by (cases "position sc1 < length (source sc1)") (auto simp: slice_def)
  moreover from assms(2) obtain a r where "str = a # r" by (cases str) auto
  ultimately show ?thesis using a
    by (auto simp: le_sc_def remaining_def next_n_def)
qed

lemma as_value_fuel_ok: "fuel_ok k p \<Longrightarrow> fuel_ok k (as_value p)"
  by (auto simp: fuel_ok_def as_value_def on_result_def split: result.splits)

lemma Or_fuel_ok:
  assumes "\<And>p. p \<in> set ps \<Longrightarrow> frame p \<and> fuel_ok k p"
  shows "fuel_ok k (Or ps)"
proof (rule fuel_okI)
  fix sc
  assume r: "remaining sc < k"
  show "Or ps sc \<noteq> OutOfFuel"
  proof (rule Or_fuel)
    fix p sc1
    assume "p \<in> set ps" "le_sc sc sc1"
    with assms r remaining_le [of sc sc1] show "frame_at p sc1 \<and> p sc1 \<noteq> OutOfFuel"
      by (auto simp: frame_def fuel_ok_def)
  qed
qed

lemma Join_loop_fuel:
  "frame p \<Longrightarrow> fuel_ok k p \<Longrightarrow> sep \<noteq> [] \<Longrightarrow> remaining sc < k \<Longrightarrow>
   Join_loop k p sep out sc \<noteq> OutOfFuel"
proof (induction k arbitrary: out sc)
  case 0
  then show ?case by simp
next
  case (Suc k)
  show ?case
  proof (cases "eof sc")
    case True
    then show ?thesis by simp
  next
    case False
    show ?thesis
    proof
      assume "Join_loop (Suc k) p sep out sc = OutOfFuel"
      with False obtain u sc1 where c: "character sep sc = Matched u sc1"
          and o: "p sc1 = OutOfFuel \<or>
            (\<exists>b sc2. p sc1 = Matched b sc2 \<and> Join_loop k p sep (out @ [b]) sc2 = OutOfFuel)"
        by (auto dest!: on_result_OutOfFuel)
      from c Suc.prems(3) have r1: "remaining sc1 < remaining sc" by (rule character_remaining)
      with Suc.prems(4) have "remaining sc1 < Suc k" by simp
      with Suc.prems(2) have "p sc1 \<noteq> OutOfFuel" by (rule fuel_okD)
      with o obtain b sc2 where m: "p sc1 = Matched b sc2"
          and j: "Join_loop k p sep (out @ [b]) sc2 = OutOfFuel"
        by auto
      from frame_Matched [OF Suc.prems(1) m] have "remaining sc2 \<le> remaining sc1"
        by (auto intro: remaining_le lt_le_sc)
      with r1 Suc.prems(4) have "remaining sc2 < k" by simp
      with Suc.IH [OF Suc.prems(1) fuel_ok_mono [OF Suc.prems(2)] Suc.prems(3)] j
      show False by auto
    qed
  qed
qed

lemma Join_fuel_ok:
  assumes "frame p" "fuel_ok k p" "sep \<noteq> []"
  shows "fuel_ok k (Join k p sep)"
proof (rule fuel_okI)
  fix sc
  assume r: "remaining sc < k"
  show "Join k p sep sc \<noteq> OutOfFuel"
  proof
    assume "Join k p sep sc = OutOfFuel"
    with fuel_okD [OF assms(2) r] obtain b sc1 where m: "p sc = Matched b sc1"
        and j: "Join_loop k p sep [b] sc1 = OutOfFuel"
      by (auto simp: Join_def dest!: on_result_OutOfFuel)
    from frame_Matched [OF assms(1) m] r have "remaining sc1 < k"
      using remaining_le [of sc sc1] by (auto dest: lt_le_sc)
    with Join_loop_fuel [OF assms, of sc1 "[b]"] j show False by simp
  qed
qed

lemma Kv_fuel_ok:
  assumes "frame key" "fuel_ok k key" "fuel_ok k v"
  shows "fuel_ok k (Kv key sep v)"
proof (rule fuel_okI)
  fix sc
  assume r: "remaining sc < k"
  show "Kv key sep v sc \<noteq> OutOfFuel"
  proof
    assume "Kv key sep v sc = OutOfFuel"
    with fuel_okD [OF assms(2) r] obtain b sc1 u sc2 where m: "key sc = Matched b sc1"
        and c: "character sep sc1 = Matched u sc2" and v: "v sc2 = OutOfFuel"
      by (auto simp: Kv_def dest!: on_result_OutOfFuel)
    from frame_Matched [OF assms(1) m] character_Matched_le [OF c] r have "remaining sc2 < k"
      using remaining_le [of sc sc2] by (auto simp: le_sc_def lt_sc_def)
    with fuel_okD [OF assms(3)] v show False by simp
  qed
qed

lemma Merge_fuel_ok: "fuel_ok k p \<Longrightarrow> fuel_ok k (Merge p)"
  by (auto simp: fuel_ok_def Merge_def on_result_def split: result.splits)

lemma Repeat_loop_fuel:
  "frame p \<Longrightarrow> fuel_ok k p \<Longrightarrow> remaining sc < k \<Longrightarrow> Repeat_loop k p body sc \<noteq> OutOfFuel"
proof (induction k arbitrary: body sc)
  case 0
  then show ?case by simp
next
  case (Suc k)
  show ?case
  proof (cases "eof sc")
    case True
    then show ?thesis by simp
  next
    case False
    show ?thesis
    proof
      assume "Repeat_loop (Suc k) p body sc = OutOfFuel"
      with False fuel_okD [OF Suc.prems(2,3)] obtain b sc1 sc2 where m: "p sc = Matched b sc1"
          and s: "nextUntilChar default_options sc1 = Inr sc2"
          and l: "Repeat_loop k p (body @ [b]) sc2 = OutOfFuel"
        by (auto dest!: on_result_OutOfFuel after_skip_OutOfFuel split: if_splits)
      from frame_Matched [OF Suc.prems(1) m] False have "remaining sc1 < remaining sc"
        by (rule remaining_lt)
      with remaining_le [OF nextUntilChar_le [OF s]] Suc.prems(3) have "remaining sc2 < k"
        by simp
      with Suc.IH [OF Suc.prems(1) fuel_ok_mono [OF Suc.prems(2)]] l show False by auto
    qed
  qed
qed

lemma Repeat_fuel_ok: "frame p \<Longrightarrow> fuel_ok k p \<Longrightarrow> fuel_ok k (Repeat k p)"
  by (rule fuel_okI) (simp add: Repeat_def Repeat_loop_fuel)

lemma Surround_fuel_ok:
  assumes "fuel_ok k p"
  shows "fuel_ok k (Surround left p right)"
proof (rule fuel_okI)
  fix sc
  assume r: "remaining sc < k"
  show "Surround left p right sc \<noteq> OutOfFuel"
  proof
    assume "Surround left p right sc = OutOfFuel"
    then obtain u sc1 where c: "character left sc = Matched u sc1" and "p sc1 = OutOfFuel"
      by (auto simp: Surround_def dest!: on_result_OutOfFuel)
    with fuel_okD [OF assms, of sc1] remaining_le [OF character_Matched_le [OF c]] r
    show False by simp
  qed
qed


lemma DottedKey_fuel_ok: "fuel_ok k (DottedKey k)"
  unfolding DottedKey_def
  by (intro Join_fuel_ok Or_frame Or_fuel_ok)
     (auto simp: BareKey_frame BasicString_frame LiteralString_frame js_def intro!: fuel_ok_never)

lemma ArrayValue_loop_fuel:
  "frame V \<Longrightarrow> fuel_ok k V \<Longrightarrow> remaining sc < k \<Longrightarrow> ArrayValue_loop k V arr sc \<noteq> OutOfFuel"
proof (induction k arbitrary: arr sc)
  case 0
  then show ?case by simp
next
  case (Suc k)
  show ?case
  proof (cases "eof sc")
    case True
    then show ?thesis by (simp add: ArrayValue_close_not)
  next
    case False
    show ?thesis
    proof
      assume "ArrayValue_loop (Suc k) V arr sc = OutOfFuel"
      with False obtain sc1 where s1: "nextUntilChar default_options sc = Inr sc1"
          and o: "V sc1 = OutOfFuel \<or>
            (\<exists>x sc2 sc3. V sc1 = Matched x sc2 \<and> nextUntilChar inline_options sc2 = Inr sc3 \<and>
               char sc3 0 = js '','' \<and> ArrayValue_loop k V (arr @ [x]) (next1 sc3) = OutOfFuel)"
        by (auto simp: ArrayValue_close_not
              dest!: after_skip_OutOfFuel on_result_OutOfFuel split: if_splits)
      from remaining_le [OF nextUntilChar_le [OF s1]] Suc.prems(3)
      have "remaining sc1 < Suc k" by simp
      with Suc.prems(2) have "V sc1 \<noteq> OutOfFuel" by (rule fuel_okD)
      with o obtain x sc2 sc3 where m: "V sc1 = Matched x sc2"
          and s3: "nextUntilChar inline_options sc2 = Inr sc3"
          and l: "ArrayValue_loop k V (arr @ [x]) (next1 sc3) = OutOfFuel"
        by auto
      have "lt_sc sc (next1 sc3)"
        using nextUntilChar_le [OF s1] frame_Matched [OF Suc.prems(1) m] nextUntilChar_le [OF s3]
        by (auto simp: le_sc_def lt_sc_def next_n_def)
      then have "remaining (next1 sc3) < remaining sc" using False by (rule remaining_lt)
      with Suc.prems(3) have "remaining (next1 sc3) < k" by simp
      with Suc.IH [OF Suc.prems(1) fuel_ok_mono [OF Suc.prems(2)]] l show False by auto
    qed
  qed
qed

lemma ArrayValue_fuel_ok:
  assumes "frame V" "fuel_ok k V"
  shows "fuel_ok (Suc k) (ArrayValue k V)"
proof (rule fuel_okI)
  fix sc
  assume r: "remaining sc < Suc k"
  show "ArrayValue k V sc \<noteq> OutOfFuel"
  proof
    assume "ArrayValue k V sc = OutOfFuel"
    then obtain sc1 where s: "nextUntilChar inline_options sc = Inr sc1"
        and c: "char sc1 0 = js ''[''" and l: "ArrayValue_loop k V [] (next1 sc1) = OutOfFuel"
      by (auto simp: ArrayValue_def dest!: after_skip_OutOfFuel split: if_splits)
    from c have "\<not> eof sc1" by (auto simp: char_def eof_def js_def split: if_splits)
    then have "remaining (next1 sc1) < remaining sc1"
      by (intro remaining_lt) simp_all
    with remaining_le [OF nextUntilChar_le [OF s]] r have "remaining (next1 sc1) < k" by simp
    with ArrayValue_loop_fuel [OF assms] l show False by blast
  qed
qed

lemma Pair_of_fuel_ok: "fuel_ok k V \<Longrightarrow> fuel_ok k (Pair_of k V)"
  unfolding Pair_of_def by (intro Kv_fuel_ok DottedKey_frame DottedKey_fuel_ok)

lemma InlineTable_fuel_ok:
  assumes "frame V" "fuel_ok k V"
  shows "fuel_ok (Suc k) (InlineTable k V)"
proof (rule fuel_okI)
  fix sc
  assume r: "remaining sc < Suc k"
  have J: "fuel_ok k (Join k (Pair_of k V) (js '',''))"
    using assms by (intro Join_fuel_ok Pair_of_frame Pair_of_fuel_ok) (simp_all add: js_def)
  show "InlineTable k V sc \<noteq> OutOfFuel"
  proof
    assume "InlineTable k V sc = OutOfFuel"
    then obtain sc1 u sc2 where s: "nextUntilChar default_options sc = Inr sc1"
        and c: "character (js ''{'') sc1 = Matched u sc2"
        and j: "Join k (Pair_of k V) (js '','') sc2 = OutOfFuel"
      by (auto simp: InlineTable_def Surround_def
            dest!: after_skip_OutOfFuel on_result_OutOfFuel split: if_splits)
    from c have "remaining sc2 < remaining sc1"
      by (rule character_remaining) (simp add: js_def)
    with remaining_le [OF nextUntilChar_le [OF s]] r have "remaining sc2 < k" by simp
    with fuel_okD [OF J] j show False by blast
  qed
qed

lemma Value_fuel_ok: "fuel_ok n (Value dateValid n)"
proof (induction n)
  case 0
  show ?case by (simp add: fuel_ok_def)
next
  case (Suc n)
  have strings: "fuel_ok (Suc n) (as_value MultilineBasicString)"
      "fuel_ok (Suc n) (as_value MultilineLiteralString)"
      "fuel_ok (Suc n) (as_value BasicString)"
      "fuel_ok (Suc n) (as_value LiteralString)"
    by (intro as_value_fuel_ok fuel_ok_never, simp)+
  have tokens: "fuel_ok (Suc n) Symbols" "fuel_ok (Suc n) (DateTime dateValid)"
      "fuel_ok (Suc n) LocalTime" "fuel_ok (Suc n) Float" "fuel_ok (Suc n) Integer"
    by (intro fuel_ok_never, simp)+
  have nested: "fuel_ok (Suc n) (ArrayValue n (Value dateValid n))"
      "fuel_ok (Suc n) (InlineTable n (Value dateValid n))"
    by (intro ArrayValue_fuel_ok InlineTable_fuel_ok Value_frame Suc)+
  have frames: "frame (as_value MultilineBasicString)" "frame (as_value MultilineLiteralString)"
      "frame (as_value BasicString)" "frame (as_value LiteralString)"
      "frame (ArrayValue n (Value dateValid n))" "frame (InlineTable n (Value dateValid n))"
    by (intro as_value_frame MultilineBasicString_frame MultilineLiteralString_frame
          BasicString_frame LiteralString_frame ArrayValue_frame InlineTable_frame Value_frame)+
  have "fuel_ok (Suc n) (Or [as_value MultilineBasicString,
         as_value MultilineLiteralString,
         as_value BasicString,
         as_value LiteralString,
         Symbols,
         DateTime dateValid,
         LocalTime,
         Float,
         Integer,
         ArrayValue n (Value dateValid n),
         InlineTable n (Value dateValid n)])"
    by (intro Or_fuel_ok)
       (auto simp: strings tokens nested frames Symbols_frame DateTime_frame LocalTime_frame
          Float_frame Integer_frame)
  then show ?case by (simp add: fuel_ok_def)
qed

lemma Pair_fuel_ok: "fuel_ok n (Pair dateValid n)"
  unfolding Pair_def by (intro Pair_of_fuel_ok Value_fuel_ok)

lemma Block_fuel_ok: "fuel_ok n (Block dateValid n)"
proof (rule fuel_okI)
  fix sc
  assume r: "remaining sc < n"
  have M: "fuel_ok n (Merge (Repeat n (Pair dateValid n)))"
    by (intro Merge_fuel_ok Repeat_fuel_ok Pair_frame Pair_fuel_ok)
  show "Block dateValid n sc \<noteq> OutOfFuel"
  proof
    assume "Block dateValid n sc = OutOfFuel"
    then obtain sc1 where s: "nextUntilChar default_options sc = Inr sc1"
        and "Merge (Repeat n (Pair dateValid n)) sc1 = OutOfFuel"
      by (auto simp: Block_def dest!: after_skip_OutOfFuel on_result_OutOfFuel)
    with fuel_okD [OF M, of sc1] remaining_le [OF nextUntilChar_le [OF s]] r show False by simp
  qed
qed

lemma header_block_fuel:
  assumes "remaining sc < n"
  shows "header_block dateValid n ty header sc \<noteq> OutOfFuel"
proof
  assume "header_block dateValid n ty header sc = OutOfFuel"
  then obtain sc1 where s: "nextUntilChar default_options sc = Inr sc1"
      and "Block dateValid n sc1 = OutOfFuel"
    by (auto simp: header_block_def dest!: after_skip_OutOfFuel split: result.splits)
  with fuel_okD [OF Block_fuel_ok, of sc1 n] remaining_le [OF nextUntilChar_le [OF s]] assms
  show False by simp
qed

lemma TableHeader_fuel_ok: "fuel_ok n (TableHeader n)"
  unfolding TableHeader_def by (intro Surround_fuel_ok DottedKey_fuel_ok)

lemma TableArrayHeader_fuel_ok: "fuel_ok n (TableArrayHeader n)"
  unfolding TableArrayHeader_def by (intro Surround_fuel_ok DottedKey_fuel_ok)

lemma Table_fuel_ok: "fuel_ok n (Table dateValid n)"
proof (rule fuel_okI)
  fix sc
  assume r: "remaining sc < n"
  show "Table dateValid n sc \<noteq> OutOfFuel"
  proof
    assume "Table dateValid n sc = OutOfFuel"
    then obtain sc1 where s: "nextUntilChar default_options sc = Inr sc1"
        and o: "TableHeader n sc1 = OutOfFuel \<or>
          (\<exists>h sc2. TableHeader n sc1 = Matched h sc2 \<and>
             header_block dateValid n Table_type h sc2 = OutOfFuel)"
      by (auto simp: Table_def dest!: after_skip_OutOfFuel on_result_OutOfFuel)
    from remaining_le [OF nextUntilChar_le [OF s]] r have r1: "remaining sc1 < n" by simp
    with fuel_okD [OF TableHeader_fuel_ok] o obtain h sc2
      where m: "TableHeader n sc1 = Matched h sc2"
        and hb: "header_block dateValid n Table_type h sc2 = OutOfFuel"
      by blast
    from frame_Matched [OF TableHeader_frame m] r1 have "remaining sc2 < n"
      using remaining_le [of sc1 sc2] by (auto dest: lt_le_sc)
    with header_block_fuel hb show False by blast
  qed
qed

lemma TableArray_fuel_ok: "fuel_ok n (TableArray dateValid n)"
proof (rule fuel_okI)
  fix sc
  assume r: "remaining sc < n"
  show "TableArray dateValid n sc \<noteq> OutOfFuel"
  proof
    assume "TableArray dateValid n sc = OutOfFuel"
    then obtain sc1 where s: "nextUntilChar default_options sc = Inr sc1"
        and o: "TableArrayHeader n sc1 = OutOfFuel \<or>
          (\<exists>h sc2. TableArrayHeader n sc1 = Matched h sc2 \<and>
             header_block dateValid n TableArray_type h sc2 = OutOfFuel)"
      by (auto simp: TableArray_def dest!: after_skip_OutOfFuel on_result_OutOfFuel)
    from remaining_le [OF nextUntilChar_le [OF s]] r have r1: "remaining sc1 < n" by simp
    with fuel_okD [OF TableArrayHeader_fuel_ok] o obtain h sc2
      where m: "TableArrayHeader n sc1 = Matched h sc2"
        and hb: "header_block dateValid n TableArray_type h sc2 = OutOfFuel"
      by blast
    from frame_Matched [OF TableArrayHeader_frame m] r1 have "remaining sc2 < n"
      using remaining_le [of sc1 sc2] by (auto dest: lt_le_sc)
    with header_block_fuel hb show False by blast
  qed
qed

lemma Toml_fuel_ok: "fuel_ok n (Toml dateValid n)"
proof -
  have "fuel_ok n (Repeat n (Or [Block dateValid n, TableArray dateValid n, Table dateValid n]))"
    by (intro Repeat_fuel_ok Or_frame Or_fuel_ok)
       (auto simp: Block_frame TableArray_frame Table_frame
          Block_fuel_ok TableArray_fuel_ok Table_fuel_ok)
  then show ?thesis
    by (auto simp: fuel_ok_def Toml_def on_result_def split: result.splits sum.splits)
qed

lemma Toml_returns: "Toml dateValid (Suc (length s)) (new_Scanner s) \<noteq> OutOfFuel"
  by (rule fuel_okD [OF Toml_fuel_ok]) (simp add: remaining_def new_Scanner_def)



lemma slice_2_iff: "slice sc 0 2 = [a, b] \<longleftrightarrow> char sc 0 = [a] \<and> char sc 1 = [b]"
proof -
  define xs where "xs = drop (position sc) (source sc)"
  have c0: "char sc 0 = take 1 xs"
    by (cases "position sc < length (source sc)")
       (simp_all add: char_def xs_def Cons_nth_drop_Suc [symmetric])
  have c1: "char sc 1 = take 1 (drop 1 xs)"
    by (cases "Suc (position sc) < length (source sc)")
       (simp_all add: char_def xs_def Cons_nth_drop_Suc [symmetric])
  have "slice sc 0 2 = take 2 xs" by (simp add: slice_def xs_def)
  then show ?thesis unfolding c0 c1
    by (cases xs; cases "tl xs") auto
qed

lemma isCurrentCharEOL_iff:
  "char sc 0 = [c] \<Longrightarrow> isCurrentCharEOL sc \<longleftrightarrow> c = 10 \<or> (c = 13 \<and> char sc 1 = [10])"
  by (auto simp: isCurrentCharEOL_def slice_2_iff)

lemma skip_inline_eq:
  "skip_inline sc =
     sc\<lparr>position := position sc + length (takeWhile whitespace (drop (position sc) (source sc)))\<rparr>"
proof (induction sc rule: skip_inline.induct)
  case (1 sc)
  show ?case
  proof (cases "test whitespace (char sc 0) \<and> \<not> eof sc")
    case True
    then have lt: "position sc < length (source sc)" and w: "whitespace (source sc ! position sc)"
      by (auto simp: eof_def char_def test_def)
    from lt have d: "drop (position sc) (source sc)
        = source sc ! position sc # drop (Suc (position sc)) (source sc)"
      by (simp add: Cons_nth_drop_Suc)
    from True "1.IH" have "skip_inline (next1 sc) = (next1 sc)\<lparr>position := position (next1 sc)
        + length (takeWhile whitespace (drop (position (next1 sc)) (source (next1 sc))))\<rparr>"
      by simp
    with True d w show ?thesis
      by (subst skip_inline.simps) (simp add: next_n_def)
  next
    case False
    then have "takeWhile whitespace (drop (position sc) (source sc)) = []"
      by (cases "position sc < length (source sc)")
         (auto simp: eof_def char_def test_def Cons_nth_drop_Suc [symmetric])
    with False show ?thesis by (subst skip_inline.simps) auto
  qed
qed

section \<open>Evaluation on concrete texts\<close>

text \<open>
  The equations used to run the parser on a concrete text. A definition that takes a
  scanner is unfolded only at a scanner that is already a record of a text and a
  position, so that the body of a continuation is left alone until the call that
  precedes it has been evaluated.
\<close>

lemma Join_loop_numeral:
  "Join_loop (numeral k) parser separator out scanner =
     Join_loop (Suc (pred_numeral k)) parser separator out scanner"
  by (simp add: numeral_eq_Suc)

lemma Repeat_loop_numeral:
  "Repeat_loop (numeral k) parser body scanner =
     Repeat_loop (Suc (pred_numeral k)) parser body scanner"
  by (simp add: numeral_eq_Suc)

lemma ArrayValue_loop_numeral:
  "ArrayValue_loop (numeral k) V array scanner =
     ArrayValue_loop (Suc (pred_numeral k)) V array scanner"
  by (simp add: numeral_eq_Suc)

lemma Value_numeral:
  "Value dateValid (numeral k) scanner = Value dateValid (Suc (pred_numeral k)) scanner"
  by (simp add: numeral_eq_Suc)

lemmas numeral_fuel =
  Join_loop_numeral [where scanner = "\<lparr>source = _, position = _\<rparr>", unfolded Join_loop.simps]
  Repeat_loop_numeral [where scanner = "\<lparr>source = _, position = _\<rparr>", unfolded Repeat_loop.simps]
  ArrayValue_loop_numeral [where scanner = "\<lparr>source = _, position = _\<rparr>", unfolded ArrayValue_loop.simps]
  Value_numeral [where scanner = "\<lparr>source = _, position = _\<rparr>", unfolded Value.simps]

lemmas scanner_eval =
  skip_inline.simps [where sc = "\<lparr>source = _, position = _\<rparr>"]
  skip_comment.simps [where sc = "\<lparr>source = _, position = _\<rparr>"]
  skip_full.simps [where sc = "\<lparr>source = _, position = _\<rparr>"]
  nextUntilChar_def [where sc = "\<lparr>source = _, position = _\<rparr>"]
  collect.simps [where sc = "\<lparr>source = _, position = _\<rparr>"]
  BareKey_loop.simps [where sc = "\<lparr>source = _, position = _\<rparr>"]
  BasicString_loop.simps [where sc = "\<lparr>source = _, position = _\<rparr>"]
  LiteralString_loop.simps [where sc = "\<lparr>source = _, position = _\<rparr>"]
  MultilineBasicString_loop.simps [where sc = "\<lparr>source = _, position = _\<rparr>"]
  MultilineLiteralString_loop.simps [where sc = "\<lparr>source = _, position = _\<rparr>"]
  Float_lookahead.simps [where sc = "\<lparr>source = _, position = _\<rparr>"]

lemmas parser_eval =
  character_def [where scanner = "\<lparr>source = _, position = _\<rparr>"]
  Join_def [where scanner = "\<lparr>source = _, position = _\<rparr>"]
  Kv_def [where scanner = "\<lparr>source = _, position = _\<rparr>"]
  Merge_def [where scanner = "\<lparr>source = _, position = _\<rparr>"]
  Repeat_def [where scanner = "\<lparr>source = _, position = _\<rparr>"]
  Surround_def [where scanner = "\<lparr>source = _, position = _\<rparr>"]
  BareKey_def [where scanner = "\<lparr>source = _, position = _\<rparr>"]
  EscapeSequence_def [where scanner = "\<lparr>source = _, position = _\<rparr>"]
  BasicString_def [where scanner = "\<lparr>source = _, position = _\<rparr>"]
  LiteralString_def [where scanner = "\<lparr>source = _, position = _\<rparr>"]
  MultilineBasicString_def [where scanner = "\<lparr>source = _, position = _\<rparr>"]
  MultilineLiteralString_def [where scanner = "\<lparr>source = _, position = _\<rparr>"]
  Symbols_def [where scanner = "\<lparr>source = _, position = _\<rparr>"]
  Integer_def [where scanner = "\<lparr>source = _, position = _\<rparr>"]
  Float_def [where scanner = "\<lparr>source = _, position = _\<rparr>"]
  DateTime_def [where scanner = "\<lparr>source = _, position = _\<rparr>"]
  LocalTime_def [where scanner = "\<lparr>source = _, position = _\<rparr>"]
  as_value_def [where scanner = "\<lparr>source = _, position = _\<rparr>"]
  ArrayValue_close_def [where scanner = "\<lparr>source = _, position = _\<rparr>"]
  ArrayValue_def [where scanner = "\<lparr>source = _, position = _\<rparr>"]
  InlineTable_def [where scanner = "\<lparr>source = _, position = _\<rparr>"]
  Block_def [where scanner = "\<lparr>source = _, position = _\<rparr>"]
  header_block_def [where scanner = "\<lparr>source = _, position = _\<rparr>"]
  Table_def [where scanner = "\<lparr>source = _, position = _\<rparr>"]
  TableArray_def [where scanner = "\<lparr>source = _, position = _\<rparr>"]
  Toml_def [where scanner = "\<lparr>source = _, position = _\<rparr>"]

lemmas value_eval =
  unflat.simps [where keys = "[]"] unflat.simps [where keys = "_ # _"]
  toString_radix.simps [where n = "numeral _"] toString_radix.simps [where n = 0]
  toString_radix.simps [where n = "Suc _"]
  deepMerge.simps mergeEntries.simps
  deepAssignWithTable.simps [where tbl = "\<lparr>tbl_type = _, tbl_key = _, tbl_value = _\<rparr>"]

lemmas eval_rules = js_def new_Scanner_def char_def slice_def next_n_def eof_def isCurrentCharEOL_def test_def
  whitespace_def re_s_def default_options_def inline_options_def no_comment_options_def
  invalid_whitespace_error_def on_result_def after_skip_def
  is_digit_def BARE_KEY_def FLOAT_def END_OF_VALUE_def re_sign_def re_digit_us_def re_hex_us_def re_datetime_def
  is_hex_def hex_val_def parseInt_0x_def fromCodePoint_def
  trim_first_newline_def symbolPairs_def DottedKey_def
  strip_sign_def parseInt_def parseFloat_def take_sign_def
  re_date_def trim_def re_time_def Pair_of_def Pair_def TableHeader_def
  TableArrayHeader_def parse_error_def ParserFactory_def parse_def
  Let_def get_prop_def Object_assign_def assign_def digit_char_def
  get_property_def put_property_def inherited_def array_index_def decimal_value_def
  Object_prototype_def Array_prototype_def String_prototype_def Number_prototype_def
  Boolean_prototype_def Date_prototype_def
  numeral_fuel scanner_eval parser_eval value_eval

text \<open>The equations used to run the dumper on a concrete value.\<close>

lemmas dumper_eval =
  printObject.simps [where obj = "VObject _"] printObject.simps [where obj = "VUndefined"]
  printAsInlineValue.simps [where v = "VObject _"] printAsInlineValue.simps [where v = "VArray _"]
  printAsInlineValue.simps [where v = "VBoolean _"] printAsInlineValue.simps [where v = "VString _"]
  printAsInlineValue.simps [where v = "VNumber _"] printAsInlineValue.simps [where v = "VDate _"]
  printAsInlineValue.simps [where v = "VUndefined"]
  stringify_def dump_def own_entries_def own_order_def array_index_def decimal_value_def
  numberDeclaration_def strDeclaration_def boolDeclaration_def arrayDeclaration_def
  dateDeclaration_def declaration_of_def header_of_def headerGroup_def joinKeys_def
  Number_toString_def is_finite_def is_bare_unit_def is_digit_def JSON_stringify_string_def
  JSON_stringify_array_def quote_unit_def hex4_def digit_char_def is_high_surrogate_def
  is_low_surrogate_def getTypeOfArray_def js_def


section \<open>Claims\<close>

text \<open>
  C10. \<open>nextUntilChar\<close> applies the invalid-whitespace check after an inline skip too:
  from any scanner, once the run of spaces and tabs at the cursor is skipped, a current
  character of the class \<open>\s\<close> that is neither a line feed nor the carriage return of
  a CR LF pair makes the call throw \<open>Contains invalid whitespaces\<close>, naming the code
  unit in hexadecimal; the scanner stays where the skip left it.
\<close>

theorem nextUntilChar_inline_invalid_whitespace:
  assumes "sc' = sc\<lparr>position := position sc
              + length (takeWhile whitespace (drop (position sc) (source sc)))\<rparr>"
    and "char sc' 0 = [c]" and "re_s c" and "c \<noteq> 10" and "\<not> (c = 13 \<and> char sc' 1 = [10])"
  shows "nextUntilChar inline_options sc =
           Inl (TOMLParseError (js ''Contains invalid whitespaces: `'' @ [92, 117]
                  @ toString_radix 16 c @ js ''`''), sc')"
proof -
  from assms(1) have s: "skip_inline sc = sc'" by (simp add: skip_inline_eq)
  from assms(2,4,5) have "\<not> isCurrentCharEOL sc'" by (simp add: isCurrentCharEOL_iff)
  moreover from assms(2,3) have "test re_s (char sc' 0)" by (simp add: test_def)
  ultimately show ?thesis using assms(2)
    by (simp add: nextUntilChar_def inline_options_def s invalid_whitespace_error_def js_def)
qed

theorem nextUntilChar_inline_invalid_whitespace_witness:
  "nextUntilChar inline_options \<lparr>source = [97, 32, 9, 11, 98], position = 1\<rparr> =
     Inl (TOMLParseError (js ''Contains invalid whitespaces: `'' @ [92, 117] @ js ''b'' @ js ''`''),
          \<lparr>source = [97, 32, 9, 11, 98], position = 3\<rparr>)
   \<and> nextUntilChar inline_options \<lparr>source = [32, 13, 98], position = 0\<rparr> =
     Inl (TOMLParseError (js ''Contains invalid whitespaces: `'' @ [92, 117] @ js ''d'' @ js ''`''),
          \<lparr>source = [32, 13, 98], position = 1\<rparr>)"
proof -
  have t: "toString_radix 16 11 = js ''b''" "toString_radix 16 13 = js ''d''" by code_simp+
  have a: "nextUntilChar inline_options \<lparr>source = [97, 32, 9, 11, 98], position = 1\<rparr> =
     Inl (TOMLParseError (js ''Contains invalid whitespaces: `'' @ [92, 117]
            @ toString_radix 16 11 @ js ''`''),
          \<lparr>source = [97, 32, 9, 11, 98], position = 3\<rparr>)"
    by (rule nextUntilChar_inline_invalid_whitespace)
       (simp_all add: whitespace_def char_def re_s_def)
  have b: "nextUntilChar inline_options \<lparr>source = [32, 13, 98], position = 0\<rparr> =
     Inl (TOMLParseError (js ''Contains invalid whitespaces: `'' @ [92, 117]
            @ toString_radix 16 13 @ js ''`''),
          \<lparr>source = [32, 13, 98], position = 1\<rparr>)"
    by (rule nextUntilChar_inline_invalid_whitespace)
       (simp_all add: whitespace_def char_def re_s_def)
  from a b show ?thesis by (simp only: t)
qed



text \<open>
  C6. In full mode, when the skip over spaces, tabs, line breaks and (unless suppressed)
  comments stops at a character of the class \<open>\s\<close> that is not an end of line,
  \<open>nextUntilChar\<close> throws \<open>Contains invalid whitespaces\<close> with the code unit written as
  \<open>\u\<close> followed by its hexadecimal digits; and when this happens in the first skip of
  a document, \<open>parse\<close> fails with that message, positioned where the skip stopped.
\<close>

theorem nextUntilChar_full_invalid_whitespace:
  assumes "\<not> inline opts" and "sc' = skip_full (comment opts) sc"
    and "char sc' 0 = [c]" and "re_s c" and "c \<noteq> 10" and "\<not> (c = 13 \<and> char sc' 1 = [10])"
  shows "nextUntilChar opts sc =
           Inl (TOMLParseError (js ''Contains invalid whitespaces: `'' @ [92, 117]
                  @ toString_radix 16 c @ js ''`''), sc')
         \<and> (opts = default_options \<and> sc = new_Scanner s \<longrightarrow>
              parse dateValid s =
                Some (Inl (parse_error s sc' (Some (TOMLParseError
                  (js ''Contains invalid whitespaces: `'' @ [92, 117]
                     @ toString_radix 16 c @ js ''`''))))))"
proof -
  let ?e = "TOMLParseError (js ''Contains invalid whitespaces: `'' @ [92, 117]
                  @ toString_radix 16 c @ js ''`'')"
  from assms(3,5,6) have "\<not> isCurrentCharEOL sc'" by (simp add: isCurrentCharEOL_iff)
  moreover from assms(3,4) have "test re_s (char sc' 0)" by (simp add: test_def)
  ultimately have n: "nextUntilChar opts sc = Inl (?e, sc')"
    using assms(1,2,3)
    by (simp add: nextUntilChar_def invalid_whitespace_error_def js_def)
  have "parse dateValid s = Some (Inl (parse_error s sc' (Some ?e)))"
    if o: "opts = default_options" and s: "sc = new_Scanner s"
  proof -
    have "s \<noteq> []"
    proof
      assume "s = []"
      with s assms(2) have "sc' = new_Scanner []"
        by (subst (asm) skip_full.simps) (simp add: new_Scanner_def eof_def)
      with assms(3) show False by (simp add: char_def new_Scanner_def)
    qed
    then have "\<not> eof (new_Scanner s)" by (simp add: eof_def new_Scanner_def)
    moreover from n o s have "Block dateValid (Suc (length s)) (new_Scanner s) = Throw ?e sc'"
      by (simp add: Block_def after_skip_def)
    ultimately have "Toml dateValid (Suc (length s)) (new_Scanner s) = Throw ?e sc'"
      by (simp add: Toml_def Repeat_def on_result_def)
    then show ?thesis by (simp add: parse_def ParserFactory_def)
  qed
  with n show ?thesis by blast
qed

theorem nextUntilChar_full_invalid_whitespace_witness:
  "nextUntilChar default_options (new_Scanner (js ''# c'' @ [10, 11])) =
     Inl (TOMLParseError (js ''Contains invalid whitespaces: `'' @ [92, 117] @ js ''b`''),
          \<lparr>source = js ''# c'' @ [10, 11], position = 4\<rparr>)
   \<and> parse (\<lambda>d. True) (js ''# c'' @ [10, 11]) =
     Some (Inl (TOMLParseError (js ''Parse error on line 2, column 0: Contains invalid whitespaces: `''
        @ [92, 117] @ js ''b`'')))"
proof -
  have a: "\<not> inline default_options" by (simp add: default_options_def)
  have b: "\<lparr>source = js ''# c'' @ [10, 11], position = 4\<rparr> =
      skip_full (comment default_options) (new_Scanner (js ''# c'' @ [10, 11]))"
    by (simp add: eval_rules)
  have c: "char \<lparr>source = js ''# c'' @ [10, 11], position = 4\<rparr> 0 = [11]"
    by (simp add: eval_rules)
  have d: "re_s 11" "(11::nat) \<noteq> 10"
    "\<not> ((11::nat) = 13 \<and> char \<lparr>source = js ''# c'' @ [10, 11], position = 4\<rparr> 1 = [10])"
    by (simp_all add: re_s_def)
  have t: "toString_radix 16 11 = js ''b''" by (simp add: eval_rules)
  from nextUntilChar_full_invalid_whitespace [OF a b c d, of "js ''# c'' @ [10, 11]" "\<lambda>d. True"]
  show ?thesis by (simp add: t eval_rules)
qed

text \<open>
  C8. The empty-table fast path of \<open>InlineTable\<close> looks only at the character one past
  the cursor: whenever, after the full skip, that character is a closing brace, the
  recognizer consumes two characters and matches the empty mapping, whatever the
  character at the cursor is. So \<open>parse("a = x}")\<close> returns \<open>{a: {}}\<close>.
\<close>

theorem InlineTable_empty_fast_path:
  "(nextUntilChar default_options sc = Inr sc1 \<and> char sc1 1 = js ''}'' \<longrightarrow>
      InlineTable n V sc = Matched (VObject []) (next_n 2 sc1))
   \<and> parse dateValid (js ''a = x}'') = Some (Inr (VObject [(js ''a'', VObject [])]))"
proof -
  have "parse dateValid (js ''a = x}'') = Some (Inr (VObject [(js ''a'', VObject [])]))"
    by (simp add: eval_rules)
  then show ?thesis by (simp add: InlineTable_def after_skip_def)
qed

theorem InlineTable_empty_fast_path_witness:
  "nextUntilChar default_options \<lparr>source = js ''a = x}'', position = 4\<rparr>
     = Inr \<lparr>source = js ''a = x}'', position = 4\<rparr>
   \<and> char \<lparr>source = js ''a = x}'', position = 4\<rparr> 0 = js ''x''
   \<and> char \<lparr>source = js ''a = x}'', position = 4\<rparr> 1 = js ''}''
   \<and> InlineTable 0 (\<lambda>sc. OutOfFuel) \<lparr>source = js ''a = x}'', position = 4\<rparr>
     = Matched (VObject []) \<lparr>source = js ''a = x}'', position = 6\<rparr>"
proof -
  have a: "nextUntilChar default_options \<lparr>source = js ''a = x}'', position = 4\<rparr>
     = Inr \<lparr>source = js ''a = x}'', position = 4\<rparr>"
    by (simp add: eval_rules)
  have b: "char \<lparr>source = js ''a = x}'', position = 4\<rparr> 1 = js ''}''"
    by (simp add: eval_rules)
  from InlineTable_empty_fast_path [of "\<lparr>source = js ''a = x}'', position = 4\<rparr>"
      "\<lparr>source = js ''a = x}'', position = 4\<rparr>" 0 "\<lambda>sc. OutOfFuel" dateValid] a b
  have "InlineTable 0 (\<lambda>sc. OutOfFuel) \<lparr>source = js ''a = x}'', position = 4\<rparr>
     = Matched (VObject []) (next_n 2 \<lparr>source = js ''a = x}'', position = 4\<rparr>)"
    by blast
  with a b show ?thesis by (simp add: eval_rules)
qed



text \<open>
  C3. In \<open>deepAssignWithTable\<close>, when the target holds a sequence at the first key
  segment: a TableArray declaration whose key has exactly that one segment appends its
  value to the sequence; any other declaration recurses into the last element of the
  sequence with the rest of the key path, and the result replaces that last element.
  Two consecutive \<open>[[bin]]\<close> blocks therefore parse to one sequence of two mappings.
\<close>

theorem deepAssignWithTable_sequence:
  assumes "tbl_key tbl = k0 # rest" and "get_prop props k0 = VArray xs"
  shows "(tbl_type tbl = TableArray_type \<and> rest = [] \<longrightarrow>
            deepAssignWithTable (VObject props) tbl =
              Inr (VObject (set_prop k0 (VArray (xs @ [tbl_value tbl])) props)))
       \<and> (\<not> (tbl_type tbl = TableArray_type \<and> rest = []) \<and> xs \<noteq> [] \<longrightarrow>
            deepAssignWithTable (VObject props) tbl =
              (case deepAssignWithTable (last xs) (tbl\<lparr>tbl_key := rest\<rparr>) of
                 Inl e \<Rightarrow> Inl e
               | Inr last' \<Rightarrow> Inr (VObject (set_prop k0 (VArray (butlast xs @ [last'])) props))))
       \<and> parse dateValid
             (js ''[[bin]]'' @ [10] @ js ''name = '' @ [34] @ js ''deno'' @ [34, 10]
              @ js ''[[bin]]'' @ [10] @ js ''name = '' @ [34] @ js ''deno_core'' @ [34, 10]) =
           Some (Inr (VObject [(js ''bin'',
             VArray [VObject [(js ''name'', VString (js ''deno''))],
                     VObject [(js ''name'', VString (js ''deno_core''))]])]))"
proof (intro conjI impI)
  assume "tbl_type tbl = TableArray_type \<and> rest = []"
  with assms show "deepAssignWithTable (VObject props) tbl =
      Inr (VObject (set_prop k0 (VArray (xs @ [tbl_value tbl])) props))"
    by (subst deepAssignWithTable.simps) (simp add: get_property_def put_property_def)
next
  assume "\<not> (tbl_type tbl = TableArray_type \<and> rest = []) \<and> xs \<noteq> []"
  with assms show "deepAssignWithTable (VObject props) tbl =
      (case deepAssignWithTable (last xs) (tbl\<lparr>tbl_key := rest\<rparr>) of
         Inl e \<Rightarrow> Inl e
       | Inr last' \<Rightarrow> Inr (VObject (set_prop k0 (VArray (butlast xs @ [last'])) props)))"
    by (subst deepAssignWithTable.simps)
       (auto simp: get_property_def put_property_def split: sum.splits)
next
  show "parse dateValid
             (js ''[[bin]]'' @ [10] @ js ''name = '' @ [34] @ js ''deno'' @ [34, 10]
              @ js ''[[bin]]'' @ [10] @ js ''name = '' @ [34] @ js ''deno_core'' @ [34, 10]) =
           Some (Inr (VObject [(js ''bin'',
             VArray [VObject [(js ''name'', VString (js ''deno''))],
                     VObject [(js ''name'', VString (js ''deno_core''))]])]))"
    by (simp add: eval_rules)
qed

theorem deepAssignWithTable_sequence_witness:
  "deepAssignWithTable (VObject [(js ''bin'', VArray [VObject [(js ''name'', VString (js ''deno''))]])])
      \<lparr>tbl_type = TableArray_type, tbl_key = [js ''bin''],
       tbl_value = VObject [(js ''name'', VString (js ''deno_core''))]\<rparr>
     = Inr (VObject [(js ''bin'', VArray [VObject [(js ''name'', VString (js ''deno''))],
                                          VObject [(js ''name'', VString (js ''deno_core''))]])])
   \<and> deepAssignWithTable (VObject [(js ''bin'', VArray [VObject [], VObject []])])
      \<lparr>tbl_type = Table_type, tbl_key = [js ''bin'', js ''sub''],
       tbl_value = VObject [(js ''x'', VBoolean True)]\<rparr>
     = Inr (VObject [(js ''bin'', VArray [VObject [],
                        VObject [(js ''sub'', VObject [(js ''x'', VBoolean True)])]])])"
proof -
  let ?p1 = "[(js ''bin'', VArray [VObject [(js ''name'', VString (js ''deno''))]])]"
  let ?t1 = "\<lparr>tbl_type = TableArray_type, tbl_key = [js ''bin''],
       tbl_value = VObject [(js ''name'', VString (js ''deno_core''))]\<rparr>"
  let ?p2 = "[(js ''bin'', VArray [VObject [], VObject []])]"
  let ?t2 = "\<lparr>tbl_type = Table_type, tbl_key = [js ''bin'', js ''sub''],
       tbl_value = VObject [(js ''x'', VBoolean True)]\<rparr>"
  have a1: "tbl_key ?t1 = js ''bin'' # []" by simp
  have b1: "get_prop ?p1 (js ''bin'') = VArray [VObject [(js ''name'', VString (js ''deno''))]]"
    by (simp add: get_prop_def)
  have a2: "tbl_key ?t2 = js ''bin'' # [js ''sub'']" by simp
  have b2: "get_prop ?p2 (js ''bin'') = VArray [VObject [], VObject []]"
    by (simp add: get_prop_def)
  from deepAssignWithTable_sequence [OF a1 b1, of "\<lambda>d. True"]
  have 1: "deepAssignWithTable (VObject ?p1) ?t1 =
      Inr (VObject (set_prop (js ''bin'')
        (VArray ([VObject [(js ''name'', VString (js ''deno''))]] @ [tbl_value ?t1])) ?p1))"
    by simp
  from deepAssignWithTable_sequence [OF a2 b2, of "\<lambda>d. True"]
  have 2: "deepAssignWithTable (VObject ?p2) ?t2 =
      (case deepAssignWithTable (last [VObject [], VObject []]) (?t2\<lparr>tbl_key := [js ''sub'']\<rparr>) of
         Inl e \<Rightarrow> Inl e
       | Inr last' \<Rightarrow> Inr (VObject (set_prop (js ''bin'')
           (VArray (butlast [VObject [], VObject []] @ [last'])) ?p2)))"
    by simp
  show ?thesis
    unfolding 1 2 by (simp add: eval_rules)
qed



lemma slice_3_not_eof: "slice sc 0 3 = [a, b, c] \<Longrightarrow> \<not> eof sc"
  by (auto simp: slice_def eof_def)

lemma slice_2_not_3: "slice sc 0 2 = [92, 10] \<Longrightarrow> slice sc 0 3 \<noteq> [34, 34, 34] \<and> \<not> eof sc"
proof -
  assume a: "slice sc 0 2 = [92, 10]"
  have "take 2 (slice sc 0 3) = slice sc 0 2" by (simp add: slice_def min_def)
  with a have "take 2 (slice sc 0 3) = [92, 10]" by simp
  then have "slice sc 0 3 \<noteq> [34, 34, 34]" by auto
  moreover from a have "\<not> eof sc" by (auto simp: slice_def eof_def)
  ultimately show ?thesis by simp
qed

text \<open>
  C5 (amended). In a multi-line basic string: a line feed or CR LF right after the
  opening delimiter is dropped; a backslash right before a line feed adds nothing to the string
  and the scanner then skips that line feed and the spaces, tabs and line breaks that
  follow (the same for a backslash before CR LF), in the mode that does not skip comments, so that a \<open>#\<close> met there stops the
  skip and is read as content; at the closing delimiter a fourth quote puts exactly one
  quote into the string before the three closing quotes are consumed. The three
  examples are evaluated.
\<close>

theorem MultilineBasicString_rules:
  "(nextUntilChar inline_options sc = Inr sc1 \<and> slice sc1 0 3 = [34, 34, 34]
      \<and> char (next_n 3 sc1) 0 = [10] \<longrightarrow>
      MultilineBasicString sc = MultilineBasicString_loop (next_n 4 sc1) [])
   \<and> (nextUntilChar inline_options sc = Inr sc1 \<and> slice sc1 0 3 = [34, 34, 34]
      \<and> slice (next_n 3 sc1) 0 2 = [13, 10] \<longrightarrow>
      MultilineBasicString sc = MultilineBasicString_loop (next_n 5 sc1) [])
   \<and> (slice sc 0 2 = [92, 10] \<or> slice sc 0 3 = [92, 13, 10] \<longrightarrow>
        MultilineBasicString_loop sc acc =
          (case nextUntilChar no_comment_options (next1 sc) of
             Inl (e, sc') \<Rightarrow> Throw e sc'
           | Inr sc' \<Rightarrow> MultilineBasicString_loop sc' acc))
   \<and> (\<not> eof sc \<and> (test whitespace (char sc 0) \<or> isCurrentCharEOL sc) \<longrightarrow>
        skip_full False sc = skip_full False (next1 sc))
   \<and> (char sc 0 = js ''#'' \<longrightarrow> nextUntilChar no_comment_options sc = Inr sc)
   \<and> (slice sc 0 3 = [34, 34, 34] \<and> char sc 3 = [34] \<longrightarrow>
        MultilineBasicString_loop sc acc = Matched (concat acc @ [34]) (next_n 4 sc))
   \<and> (slice sc 0 3 = [34, 34, 34] \<and> char sc 3 \<noteq> [34] \<longrightarrow>
        MultilineBasicString_loop sc acc = Matched (concat acc) (next_n 3 sc))
   \<and> MultilineBasicString (new_Scanner ([34, 34, 34] @ js ''a'' @ [10] @ js ''b'' @ [34, 34, 34]))
       = Matched (js ''a'' @ [10] @ js ''b'')
           \<lparr>source = [34, 34, 34] @ js ''a'' @ [10] @ js ''b'' @ [34, 34, 34], position = 9\<rparr>
   \<and> MultilineBasicString
         (new_Scanner ([34, 34, 34, 10] @ js ''a'' @ [10] @ js ''b'' @ [34, 34, 34]))
       = Matched (js ''a'' @ [10] @ js ''b'')
           \<lparr>source = [34, 34, 34, 10] @ js ''a'' @ [10] @ js ''b'' @ [34, 34, 34], position = 10\<rparr>
   \<and> MultilineBasicString
         (new_Scanner ([34, 34, 34] @ js ''a'' @ [92, 10] @ js ''  b'' @ [34, 34, 34]))
       = Matched (js ''ab'')
           \<lparr>source = [34, 34, 34] @ js ''a'' @ [92, 10] @ js ''  b'' @ [34, 34, 34], position = 12\<rparr>"
proof (intro conjI impI)
  assume "nextUntilChar inline_options sc = Inr sc1 \<and> slice sc1 0 3 = [34, 34, 34]
      \<and> char (next_n 3 sc1) 0 = [10]"
  then show "MultilineBasicString sc = MultilineBasicString_loop (next_n 4 sc1) []"
    by (simp add: MultilineBasicString_def after_skip_def trim_first_newline_def next_n_def add.commute)
next
  assume a: "nextUntilChar inline_options sc = Inr sc1 \<and> slice sc1 0 3 = [34, 34, 34]
      \<and> slice (next_n 3 sc1) 0 2 = [13, 10]"
  then have "char (next_n 3 sc1) 0 \<noteq> [10]" by (simp add: slice_2_iff)
  with a show "MultilineBasicString sc = MultilineBasicString_loop (next_n 5 sc1) []"
    by (simp add: MultilineBasicString_def after_skip_def trim_first_newline_def next_n_def
          add.commute)
next
  assume "slice sc 0 2 = [92, 10] \<or> slice sc 0 3 = [92, 13, 10]"
  then show "MultilineBasicString_loop sc acc =
          (case nextUntilChar no_comment_options (next1 sc) of
             Inl (e, sc') \<Rightarrow> Throw e sc'
           | Inr sc' \<Rightarrow> MultilineBasicString_loop sc' acc)"
  proof
    assume "slice sc 0 2 = [92, 10]"
    with slice_2_not_3 [OF this] show ?thesis
      by (subst MultilineBasicString_loop.simps) (simp add: after_skip_def)
  next
    assume b: "slice sc 0 3 = [92, 13, 10]"
    then have "\<not> eof sc" by (rule slice_3_not_eof)
    with b show ?thesis
      by (subst MultilineBasicString_loop.simps) (simp add: after_skip_def)
  qed
next
  assume "\<not> eof sc \<and> (test whitespace (char sc 0) \<or> isCurrentCharEOL sc)"
  then show "skip_full False sc = skip_full False (next1 sc)"
    by (subst skip_full.simps) simp
next
  assume c: "char sc 0 = js ''#''"
  then have "\<not> test whitespace (char sc 0)" "\<not> isCurrentCharEOL sc" "\<not> test re_s (char sc 0)"
    by (simp_all add: js_def test_def whitespace_def re_s_def isCurrentCharEOL_iff [of sc 35])
  then have "skip_full False sc = sc" by (subst skip_full.simps) simp
  with \<open>\<not> isCurrentCharEOL sc\<close> \<open>\<not> test re_s (char sc 0)\<close>
  show "nextUntilChar no_comment_options sc = Inr sc"
    by (simp add: nextUntilChar_def no_comment_options_def)
next
  assume "slice sc 0 3 = [34, 34, 34] \<and> char sc 3 = [34]"
  with slice_3_not_eof [of sc 34 34 34]
  show "MultilineBasicString_loop sc acc = Matched (concat acc @ [34]) (next_n 4 sc)"
    by (subst MultilineBasicString_loop.simps) (simp add: next_n_def)
next
  assume "slice sc 0 3 = [34, 34, 34] \<and> char sc 3 \<noteq> [34]"
  with slice_3_not_eof [of sc 34 34 34]
  show "MultilineBasicString_loop sc acc = Matched (concat acc) (next_n 3 sc)"
    by (subst MultilineBasicString_loop.simps) simp
qed (simp_all add: eval_rules)

theorem MultilineBasicString_rules_witness:
  "MultilineBasicString \<lparr>source = js '' '' @ [34, 34, 34, 10, 34, 34, 34], position = 0\<rparr>
     = MultilineBasicString_loop \<lparr>source = js '' '' @ [34, 34, 34, 10, 34, 34, 34], position = 5\<rparr> []
   \<and> MultilineBasicString_loop \<lparr>source = [92, 10, 32, 10, 9, 35, 34, 34, 34], position = 0\<rparr> [js ''a'']
     = MultilineBasicString_loop \<lparr>source = [92, 10, 32, 10, 9, 35, 34, 34, 34], position = 5\<rparr> [js ''a'']
   \<and> MultilineBasicString \<lparr>source = [34, 34, 34, 13, 10, 34, 34, 34], position = 0\<rparr>
     = MultilineBasicString_loop \<lparr>source = [34, 34, 34, 13, 10, 34, 34, 34], position = 5\<rparr> []
   \<and> MultilineBasicString_loop \<lparr>source = [92, 13, 10, 32, 98, 34, 34, 34], position = 0\<rparr> [js ''a'']
     = MultilineBasicString_loop \<lparr>source = [92, 13, 10, 32, 98, 34, 34, 34], position = 4\<rparr> [js ''a'']
   \<and> skip_full False \<lparr>source = [32, 35], position = 0\<rparr> = \<lparr>source = [32, 35], position = 1\<rparr>
   \<and> nextUntilChar no_comment_options \<lparr>source = [32, 35], position = 1\<rparr>
     = Inr \<lparr>source = [32, 35], position = 1\<rparr>
   \<and> MultilineBasicString_loop \<lparr>source = [34, 34, 34, 34, 34], position = 0\<rparr> [js ''a'']
     = Matched (js ''a'' @ [34]) \<lparr>source = [34, 34, 34, 34, 34], position = 4\<rparr>
   \<and> MultilineBasicString_loop \<lparr>source = [34, 34, 34, 97], position = 0\<rparr> [js ''a'']
     = Matched (js ''a'') \<lparr>source = [34, 34, 34, 97], position = 3\<rparr>"
proof -
  note r = MultilineBasicString_rules
  let ?s1 = "\<lparr>source = js '' '' @ [34, 34, 34, 10, 34, 34, 34], position = 0\<rparr>"
  let ?s1' = "\<lparr>source = js '' '' @ [34, 34, 34, 10, 34, 34, 34], position = 1\<rparr>"
  have 1: "MultilineBasicString ?s1 = MultilineBasicString_loop (next_n 4 ?s1') []"
    using r [of ?s1 ?s1', THEN conjunct1] by (simp add: eval_rules)
  let ?s1b = "\<lparr>source = [34, 34, 34, 13, 10, 34, 34, 34], position = 0\<rparr>"
  have 7: "MultilineBasicString ?s1b = MultilineBasicString_loop (next_n 5 ?s1b) []"
    using r [of ?s1b ?s1b, THEN conjunct2, THEN conjunct1] by (simp add: eval_rules)
  let ?s2 = "\<lparr>source = [92, 10, 32, 10, 9, 35, 34, 34, 34], position = 0\<rparr>"
  have 2: "MultilineBasicString_loop ?s2 [js ''a''] =
          (case nextUntilChar no_comment_options (next1 ?s2) of
             Inl (e, sc') \<Rightarrow> Throw e sc'
           | Inr sc' \<Rightarrow> MultilineBasicString_loop sc' [js ''a''])"
    using r [of ?s2 _ "[js ''a'']", THEN conjunct2, THEN conjunct2, THEN conjunct1]
    by (simp add: eval_rules)
  let ?s2b = "\<lparr>source = [92, 13, 10, 32, 98, 34, 34, 34], position = 0\<rparr>"
  have 8: "MultilineBasicString_loop ?s2b [js ''a''] =
          (case nextUntilChar no_comment_options (next1 ?s2b) of
             Inl (e, sc') \<Rightarrow> Throw e sc'
           | Inr sc' \<Rightarrow> MultilineBasicString_loop sc' [js ''a''])"
    using r [of ?s2b _ "[js ''a'']", THEN conjunct2, THEN conjunct2, THEN conjunct1]
    by (simp add: eval_rules)
  let ?s3 = "\<lparr>source = [32, 35], position = 0\<rparr>"
  have 3: "skip_full False ?s3 = skip_full False (next1 ?s3)"
    using r [of ?s3, THEN conjunct2, THEN conjunct2, THEN conjunct2, THEN conjunct1]
    by (simp add: eval_rules)
  let ?s4 = "\<lparr>source = [32, 35], position = 1\<rparr>"
  have 4: "nextUntilChar no_comment_options ?s4 = Inr ?s4"
    using r [of ?s4, THEN conjunct2, THEN conjunct2, THEN conjunct2, THEN conjunct2,
        THEN conjunct1]
    by (simp add: eval_rules)
  let ?s5 = "\<lparr>source = [34, 34, 34, 34, 34], position = 0\<rparr>"
  have 5: "MultilineBasicString_loop ?s5 [js ''a''] = Matched (concat [js ''a''] @ [34]) (next_n 4 ?s5)"
    using r [of ?s5 _ "[js ''a'']", THEN conjunct2, THEN conjunct2, THEN conjunct2, THEN conjunct2,
        THEN conjunct2, THEN conjunct1]
    by (simp add: eval_rules)
  let ?s6 = "\<lparr>source = [34, 34, 34, 97], position = 0\<rparr>"
  have 6: "MultilineBasicString_loop ?s6 [js ''a''] = Matched (concat [js ''a'']) (next_n 3 ?s6)"
    using r [of ?s6 _ "[js ''a'']", THEN conjunct2, THEN conjunct2, THEN conjunct2, THEN conjunct2,
        THEN conjunct2, THEN conjunct2, THEN conjunct1]
    by (simp add: eval_rules)
  show ?thesis
    unfolding 1 7 2 8 3 4 5 6 by (simp add: eval_rules)
qed

text \<open>
  C5 as stated has the continuation skip comments too. It does not: after the
  backslash and the line feed, the comment \<open>#c\<close> stays in the string.
\<close>

theorem MultilineBasicString_comment_counterexample:
  "MultilineBasicString
     (new_Scanner ([34, 34, 34] @ js ''a'' @ [92, 10] @ js ''  #c'' @ [34, 34, 34]))
   = Matched (js ''a#c'')
       \<lparr>source = [34, 34, 34] @ js ''a'' @ [92, 10] @ js ''  #c'' @ [34, 34, 34], position = 13\<rparr>"
  by (simp add: eval_rules)



subsection \<open>Line and column of the driver\<close>

lemma split_lf_nonempty [simp]: "split_lf xs \<noteq> []"
  by (induction xs) auto

lemma length_split_lf: "length (split_lf xs) = Suc (length (filter (\<lambda>c. c = 10) xs))"
  by (induction xs) (auto simp: Suc_pred' length_greater_0_conv)

lemma length_hd_split_lf: "length (hd (split_lf xs)) = length (takeWhile (\<lambda>c. c \<noteq> 10) xs)"
  by (induction xs) auto

lemma tl_split_lf_Nil: "tl (split_lf xs) = [] \<longleftrightarrow> 10 \<notin> set xs"
  by (induction xs) auto

lemma length_takeWhile_rev_all:
  assumes "\<forall>x\<in>set xs. P x"
  shows "length (takeWhile P (rev xs)) = length xs"
proof -
  from assms have "takeWhile P (rev xs) = rev xs"
    by (simp add: takeWhile_eq_all_conv)
  then have "length (takeWhile P (rev xs)) = length (rev xs)" by (rule arg_cong)
  then show ?thesis by (simp only: length_rev)
qed

lemma length_takeWhile_less: "10 \<in> set cs \<Longrightarrow> length (takeWhile (\<lambda>c. c \<noteq> 10) cs) < length cs"
  by (induction cs) auto

lemma column_loop_split_lf:
  "column_loop (length xs) (split_lf xs) = length (takeWhile (\<lambda>c. c \<noteq> 10) (rev xs))"
proof (induction xs)
  case Nil
  then show ?case by simp
next
  case (Cons c cs)
  obtain h t where ht: "split_lf cs = h # t" by (cases "split_lf cs") auto
  have h: "length h = length (takeWhile (\<lambda>c. c \<noteq> 10) cs)"
    using length_hd_split_lf [of cs] ht by simp
  have t: "t = [] \<longleftrightarrow> 10 \<notin> set cs"
    using tl_split_lf_Nil [of cs] ht by simp
  show ?case
  proof (cases "c = 10")
    case True
    with Cons show ?thesis by (auto simp: takeWhile_append length_takeWhile_rev_all)
  next
    case False
    note c = this
    show ?thesis
    proof (cases "10 \<in> set cs")
      case True
      with h have lt: "length h < length cs" by (simp add: length_takeWhile_less)
      then have "column_loop (length (c # cs)) (split_lf (c # cs))
          = column_loop (length cs) (split_lf cs)"
        using c ht by simp
      with Cons True show ?thesis by (auto simp: takeWhile_append)
    next
      case False
      then have "takeWhile (\<lambda>c. c \<noteq> 10) cs = cs"
        by (auto simp: takeWhile_eq_all_conv)
      with h have "length h = length cs" by simp
      with c t ht False show ?thesis by (auto simp: takeWhile_append length_takeWhile_rev_all)
    qed
  qed
qed

text \<open>The position part of the driver's message, in terms of the text before the cursor.\<close>

lemma parse_error_position:
  "parse_error s sc err =
     TOMLParseError
       (js ''Parse error on line ''
          @ toString_radix 10 (Suc (length (filter (\<lambda>c. c = 10) (take (position sc) s))))
          @ js '', column ''
          @ toString_radix 10 (length (takeWhile (\<lambda>c. c \<noteq> 10) (rev (take (position sc) s))))
          @ js '': ''
          @ (case err of
               Some e \<Rightarrow> message e
             | None \<Rightarrow> js ''Unexpected character: '' @ [34] @ char sc 0 @ [34]))"
  by (simp add: parse_error_def Let_def length_split_lf column_loop_split_lf)

text \<open>
  C2 (amended). For every text, \<open>parse\<close> returns the whole tree that the grammar
  matched with the scanner at the end of the text, or throws a \<open>TOMLParseError\<close>; it
  throws when the grammar throws, when it does not match, and when it matches with the
  scanner before the end of the text, and it returns nothing then. The message gives
  the line, counted from 1 (one more than the line feeds before the final cursor), and
  the column as the number of characters between the last line feed and the final
  cursor, which is 0 when the cursor is at the start of a line; then the message of the
  error caught, or \<open>Unexpected character\<close> with the character at the cursor.
\<close>

theorem parse_returns_or_throws:
  "(case Toml dateValid (Suc (length s)) (new_Scanner s) of
      Matched tree sc \<Rightarrow>
        parse dateValid s =
          (if eof sc then Some (Inr tree) else Some (Inl (parse_error s sc None)))
    | NotMatched sc \<Rightarrow> parse dateValid s = Some (Inl (parse_error s sc None))
    | Throw e sc \<Rightarrow>
        parse dateValid s =
          Some (Inl (parse_error s sc
            (Some (if instanceof_Error e then e else Error (js ''[non-error thrown]'')))))
    | OutOfFuel \<Rightarrow> False)
   \<and> parse_error s sc err =
     TOMLParseError
       (js ''Parse error on line ''
          @ toString_radix 10 (Suc (length (filter (\<lambda>c. c = 10) (take (position sc) s))))
          @ js '', column ''
          @ toString_radix 10 (length (takeWhile (\<lambda>c. c \<noteq> 10) (rev (take (position sc) s))))
          @ js '': ''
          @ (case err of
               Some e \<Rightarrow> message e
             | None \<Rightarrow> js ''Unexpected character: '' @ [34] @ char sc 0 @ [34]))"
proof
  show "case Toml dateValid (Suc (length s)) (new_Scanner s) of
      Matched tree sc \<Rightarrow>
        parse dateValid s =
          (if eof sc then Some (Inr tree) else Some (Inl (parse_error s sc None)))
    | NotMatched sc \<Rightarrow> parse dateValid s = Some (Inl (parse_error s sc None))
    | Throw e sc \<Rightarrow>
        parse dateValid s =
          Some (Inl (parse_error s sc
            (Some (if instanceof_Error e then e else Error (js ''[non-error thrown]'')))))
    | OutOfFuel \<Rightarrow> False"
    using Toml_returns [of dateValid s]
    by (auto simp: parse_def ParserFactory_def split: result.splits)
qed (rule parse_error_position)


text \<open>
  C2 as stated has the column counted from 1. On the empty text the driver reports
  column 0.
\<close>

theorem parse_column_counterexample:
  "parse (\<lambda>d. True) [] =
     Some (Inl (TOMLParseError
       (js ''Parse error on line 1, column 0: Unexpected character: '' @ [34, 34])))"
  by (simp add: eval_rules)

text \<open>
  C9. Whatever the grammar does, \<open>parse\<close> returns a tree or throws a
  \<open>TOMLParseError\<close>, and nothing else: the driver of \<open>ParserFactory\<close> does so for any
  parser it is given. The RangeError of \<open>String.fromCodePoint\<close> on an escape without
  hexadecimal digits, and a thrown value that is not an Error, both come out as a
  positioned \<open>TOMLParseError\<close>.
\<close>

theorem parse_throws_only_TOMLParseError:
  "((\<exists>tree. parse dateValid s = Some (Inr tree))
      \<or> (\<exists>m. parse dateValid s = Some (Inl (TOMLParseError m))))
   \<and> (ParserFactory parser s = None
      \<or> (\<exists>body. ParserFactory parser s = Some (Inr body))
      \<or> (\<exists>m. ParserFactory parser s = Some (Inl (TOMLParseError m))))
   \<and> EscapeSequence (new_Scanner ([92] @ js ''uzzzz''))
       = Throw (RangeError (js ''Invalid code point NaN'')) \<lparr>source = [92] @ js ''uzzzz'', position = 1\<rparr>
   \<and> parse dateValid (js ''a = '' @ [34, 92] @ js ''uzzzz'' @ [34])
       = Some (Inl (TOMLParseError (js ''Parse error on line 1, column 6: Invalid code point NaN'')))
   \<and> ParserFactory (\<lambda>sc. Throw NonError sc) s
       = Some (Inl (TOMLParseError (js ''Parse error on line 1, column 0: [non-error thrown]'')))"
proof (intro conjI)
  show "ParserFactory parser s = None
      \<or> (\<exists>body. ParserFactory parser s = Some (Inr body))
      \<or> (\<exists>m. ParserFactory parser s = Some (Inl (TOMLParseError m)))"
    by (auto simp: ParserFactory_def parse_error_def Let_def split: result.splits)
  show "(\<exists>tree. parse dateValid s = Some (Inr tree))
      \<or> (\<exists>m. parse dateValid s = Some (Inl (TOMLParseError m)))"
    using Toml_returns [of dateValid s]
    by (auto simp: parse_def ParserFactory_def parse_error_def Let_def split: result.splits)
  show "ParserFactory (\<lambda>sc. Throw NonError sc) s
       = Some (Inl (TOMLParseError (js ''Parse error on line 1, column 0: [non-error thrown]'')))"
    by (simp add: ParserFactory_def parse_error_def new_Scanner_def eval_rules)
qed (simp_all add: eval_rules)

text \<open>
  C7. \<open>parse\<close> returns on every text. Each round of a loop of the combinators starts
  before the end of the text and ends with the cursor further on, because a parser that
  matches has moved the cursor forward; so a budget of rounds larger than the text that
  remains is never used up, in \<open>join\<close>, in \<open>repeat\<close>, in the loop of \<open>ArrayValue\<close>, and
  in the whole grammar with any budget above the length of the text.
\<close>

theorem parse_terminates:
  "parse dateValid s \<noteq> None
   \<and> (\<forall>n. length s < n \<longrightarrow> Toml dateValid n (new_Scanner s) \<noteq> OutOfFuel)
   \<and> (frame p \<and> fuel_ok k p \<and> sep \<noteq> [] \<and> remaining sc < k \<longrightarrow>
        Join_loop k p sep out sc \<noteq> OutOfFuel)
   \<and> (frame q \<and> fuel_ok k q \<and> remaining sc < k \<longrightarrow> Repeat_loop k q body sc \<noteq> OutOfFuel)
   \<and> (frame V \<and> fuel_ok k V \<and> remaining sc < k \<longrightarrow> ArrayValue_loop k V arr sc \<noteq> OutOfFuel)"
proof (intro conjI allI impI)
  show "parse dateValid s \<noteq> None"
    using Toml_returns [of dateValid s]
    by (auto simp: parse_def ParserFactory_def split: result.splits)
next
  fix n
  assume "length s < n"
  then show "Toml dateValid n (new_Scanner s) \<noteq> OutOfFuel"
    by (intro fuel_okD [OF Toml_fuel_ok]) (simp add: remaining_def new_Scanner_def)
qed (simp_all add: Join_loop_fuel Repeat_loop_fuel ArrayValue_loop_fuel)


theorem parse_terminates_witness:
  "parse (\<lambda>d. True) (js ''a = [1]'') \<noteq> None
   \<and> Toml (\<lambda>d. True) 9 (new_Scanner (js ''a = [1]'')) \<noteq> OutOfFuel
   \<and> Join_loop 3 BareKey (js ''.'') [] \<lparr>source = js ''a.b'', position = 1\<rparr> \<noteq> OutOfFuel
   \<and> Repeat_loop 3 BareKey [] \<lparr>source = js ''a.b'', position = 1\<rparr> \<noteq> OutOfFuel
   \<and> ArrayValue_loop 3 Symbols [] \<lparr>source = js ''a.b'', position = 1\<rparr> \<noteq> OutOfFuel"
proof -
  have f: "frame BareKey" "fuel_ok 3 BareKey" "frame Symbols" "fuel_ok 3 Symbols"
    by (simp_all add: BareKey_frame Symbols_frame fuel_ok_never)
  have r: "remaining \<lparr>source = js ''a.b'', position = 1\<rparr> < 3" "js ''.'' \<noteq> []"
    "length (js ''a = [1]'') < 9"
    by (simp_all add: remaining_def js_def)
  from parse_terminates [of "\<lambda>d. True" "js ''a = [1]''" BareKey 3 "js ''.''"
      "\<lparr>source = js ''a.b'', position = 1\<rparr>" "[]" BareKey "[]" Symbols "[]"] f r
  show ?thesis by blast
qed

text \<open>
  C4. The claim has a parser that does not match leave the cursor where it was. \<open>Float\<close>
  and \<open>Integer\<close> do not: they take the sign and the characters of a number before they
  test what they took, and return \<open>failure()\<close> with the cursor after them. \<open>or\<close> runs the
  next alternative from there, so the characters are lost: on \<open>e5 [1]\<close>, \<open>Float\<close> does
  not match and ends after \<open>e5\<close>, \<open>Value\<close> then matches the sequence that follows, and
  the document \<open>a = e5 [1]\<close> is accepted as \<open>a = [1]\<close>, while \<open>a = e5\<close> alone is
  rejected. In the same way the sign that \<open>Integer\<close> took is lost in \<open>a = +{b = true}\<close>.
\<close>

theorem Float_Integer_failure_consumes:
  "Float \<lparr>source = js ''e5 [1]'', position = 0\<rparr>
     = NotMatched \<lparr>source = js ''e5 [1]'', position = 2\<rparr>
   \<and> Integer \<lparr>source = js ''+{b = true}'', position = 0\<rparr>
     = NotMatched \<lparr>source = js ''+{b = true}'', position = 1\<rparr>
   \<and> Value dateValid 7 \<lparr>source = js ''e5 [1]'', position = 0\<rparr>
     = Matched (VArray [VNumber (ParseFloatOf (js ''1''))]) \<lparr>source = js ''e5 [1]'', position = 6\<rparr>
   \<and> parse dateValid (js ''a = e5 [1]'')
     = Some (Inr (VObject [(js ''a'', VArray [VNumber (ParseFloatOf (js ''1''))])]))
   \<and> parse dateValid (js ''a = [1]'')
     = Some (Inr (VObject [(js ''a'', VArray [VNumber (ParseFloatOf (js ''1''))])]))
   \<and> parse dateValid (js ''a = e5'')
     = Some (Inl (TOMLParseError
         (js ''Parse error on line 1, column 6: Value of key/value pair is invalid data format'')))
   \<and> parse dateValid (js ''a = +{b = true}'')
     = Some (Inr (VObject [(js ''a'', VObject [(js ''b'', VBoolean True)])]))"
  by (simp add: eval_rules)

text \<open>
  C1. The round trip fails on a document that holds \<open>nan\<close>. \<open>parse\<close> reads \<open>a = nan\<close>
  as the number NaN; \<open>#numberDeclaration\<close> has a case for each infinity, which it writes
  as \<open>inf\<close> and \<open>-inf\<close>, and none for NaN, which it writes as JavaScript prints it,
  \<open>NaN\<close>; and \<open>parse\<close> rejects \<open>a = NaN\<close>. The same round trip on \<open>a = inf\<close> gives the
  tree back.
\<close>

theorem stringify_NaN_not_parsed:
  "parse dateValid (js ''a = nan'') = Some (Inr (VObject [(js ''a'', VNumber NaN)]))
   \<and> stringify h (VObject [(js ''a'', VNumber NaN)]) = Inr (js ''a = NaN'' @ [10])
   \<and> parse dateValid (js ''a = NaN'' @ [10])
     = Some (Inl (TOMLParseError
         (js ''Parse error on line 1, column 4: Value of key/value pair is invalid data format'')))
   \<and> parse dateValid (js ''a = inf'') = Some (Inr (VObject [(js ''a'', VNumber PosInfinity)]))
   \<and> stringify h (VObject [(js ''a'', VNumber PosInfinity)]) = Inr (js ''a = inf'' @ [10])
   \<and> parse dateValid (js ''a = inf'' @ [10]) = Some (Inr (VObject [(js ''a'', VNumber PosInfinity)]))"
  by (simp add: eval_rules dumper_eval)

subsection \<open>Property reads of \<open>deepAssignWithTable\<close>\<close>

text \<open>
  A table header whose first key names a function that every mapping inherits, or whose
  path ends in the length of a string, is an \<open>Unexpected assign\<close>; a path through an
  index of a sequence reaches the element.
\<close>

lemma deepAssignWithTable_reads_prototypes:
  "parse dateValid (js ''[constructor]'')
     = Some (Inl (TOMLParseError (js ''Parse error on line 1, column 13: Unexpected assign'')))
   \<and> parse dateValid (js ''a=['' @ [34] @ js ''s'' @ [34] @ js '']'' @ [10] @ js ''[a.length]'')
     = Some (Inl (TOMLParseError (js ''Parse error on line 2, column 10: Unexpected assign'')))
   \<and> parse dateValid (js ''a=[[{}]]'' @ [10] @ js ''[a.0.x]'')
     = Some (Inr (VObject [(js ''a'', VArray [VArray [VObject [(js ''x'', VObject [])]]])]))"
  by (simp add: parse_error_position eval_rules del: parse_error_def)

end
